theory Spec2Isabelle
  imports Main
begin

section \<open>JavaScript numbers\<close>

text \<open>
  A JavaScript \<^verbatim>\<open>number\<close> is an IEEE 754 binary64 value. Every number the component
  stores is \<^verbatim>\<open>NaN\<close>, an infinity, or a finite value that is an integer: a constant, the
  result of \<^verbatim>\<open>parseInt\<close>, a product with 60, a sum or difference with 1. \<open>Fin i\<close> is
  the finite number with the integer value \<open>i\<close>; the operations below only produce
  integers that binary64 has (\<open>fl\<close> rounds to them). The two zeros are one value here: the
  component only compares numbers with \<^verbatim>\<open>> 0\<close> and \<^verbatim>\<open>=== 0\<close>, tests \<^verbatim>\<open>isNaN\<close> and
  prints them, and none of these tells the zeros apart; a countdown is never \<^verbatim>\<open>-0\<close>.
\<close>

datatype number = Fin int | PosInf | NegInf | NaN

text \<open>
  Rounding an integer to binary64, to nearest with ties to the even significand: a
  magnitude of at most 53 bits is exact; a longer one keeps its 53 leading bits. A result
  of \<open>2 ^ 1024\<close> or more is an infinity.
\<close>

fun bits :: "nat \<Rightarrow> nat" where
  "bits n = (if n = 0 then 0 else Suc (bits (n div 2)))"

declare bits.simps [simp del]

definition nearest_even :: "nat \<Rightarrow> nat \<Rightarrow> nat \<Rightarrow> nat" where
  \<comment> \<open>the integer nearest to \<open>q + r / d\<close> for \<open>r < d\<close>, the even one of two at equal distance\<close>
  "nearest_even q r d =
     (if 2 * r < d then q else if d < 2 * r then q + 1 else if even q then q else q + 1)"

definition round_nat :: "nat \<Rightarrow> nat" where
  "round_nat n =
     (let e = bits n - 53
      in if e = 0 then n
         else nearest_even (n div 2 ^ e) (n mod 2 ^ e) (2 ^ e) * 2 ^ e)"

definition fl :: "int \<Rightarrow> number" where
  "fl i =
     (let m = round_nat (nat \<bar>i\<bar>)
      in if 2 ^ 1024 \<le> m then (if i < 0 then NegInf else PosInf)
         else Fin (if i < 0 then - int m else int m))"

text \<open>
  \<open>num_add x c\<close> is \<^verbatim>\<open>x + c\<close> and \<open>num_mul x c\<close> is \<^verbatim>\<open>x * c\<close> for an integer constant
  \<open>c\<close>; \<open>num_gt0 x\<close> is \<^verbatim>\<open>x > 0\<close>.
\<close>

definition num_add :: "number \<Rightarrow> int \<Rightarrow> number" where
  "num_add x c = (case x of Fin i \<Rightarrow> fl (i + c) | PosInf \<Rightarrow> PosInf | NegInf \<Rightarrow> NegInf | NaN \<Rightarrow> NaN)"

definition num_mul :: "number \<Rightarrow> int \<Rightarrow> number" where
  "num_mul x c =
     (case x of
        Fin i \<Rightarrow> fl (i * c)
      | PosInf \<Rightarrow> if 0 < c then PosInf else if c < 0 then NegInf else NaN
      | NegInf \<Rightarrow> if 0 < c then NegInf else if c < 0 then PosInf else NaN
      | NaN \<Rightarrow> NaN)"

definition num_gt0 :: "number \<Rightarrow> bool" where
  "num_gt0 x = (case x of Fin i \<Rightarrow> 0 < i | PosInf \<Rightarrow> True | NegInf \<Rightarrow> False | NaN \<Rightarrow> False)"

definition num_ge0 :: "number \<Rightarrow> bool" where
  "num_ge0 x = (case x of Fin i \<Rightarrow> 0 \<le> i | PosInf \<Rightarrow> True | NegInf \<Rightarrow> False | NaN \<Rightarrow> False)"

section \<open>Data model of the timer component\<close>

text \<open>
  The component \<^verbatim>\<open>PomodoroTimer\<close> keeps all of its data in React state cells. The two
  interfaces \<^verbatim>\<open>Timer\<close> and \<^verbatim>\<open>EditingTimer\<close> each have the fields \<^verbatim>\<open>id\<close>,
  \<^verbatim>\<open>name\<close> and \<^verbatim>\<open>duration\<close>; the field names carry a prefix here because \<open>id\<close> is
  the identity function of HOL and two records cannot share selectors.
\<close>

record Timer =
  timer_id :: string
  timer_name :: string
  timer_duration :: number

record EditingTimer =
  edit_id :: string
  edit_name :: string
  edit_duration :: number

record state =
  timers :: "Timer list"
  activeTimerId :: string
  timeLeft :: number
  isActive :: bool
  completedPomodoros :: number
  isEditing :: bool
  editingTimer :: "EditingTimer option"

definition initial_state :: state where
  "initial_state =
     \<lparr>timers = [\<lparr>timer_id = ''1'', timer_name = ''Work'', timer_duration = Fin (25 * 60)\<rparr>],
      activeTimerId = ''1'',
      timeLeft = Fin (25 * 60),
      isActive = False,
      completedPomodoros = Fin 0,
      isEditing = False,
      editingTimer = None\<rparr>"

section \<open>Numbers as text\<close>

definition digit_char :: "nat \<Rightarrow> char" where
  "digit_char d = ''0123456789'' ! (d mod 10)"

fun digits :: "nat \<Rightarrow> string" where
  "digits n = (if n < 10 then [digit_char n] else digits (n div 10) @ [digit_char (n mod 10)])"

declare digits.simps [simp del]

text \<open>
  \<^verbatim>\<open>Number.prototype.toString()\<close> prints the shortest decimal digits \<open>s\<close> (there are
  \<open>k\<close> of them) and the exponent \<open>n\<close> for which \<open>s * 10 ^ (n - k)\<close> rounds to the number,
  the nearest such \<open>s\<close> when there are several, as \<open>n - k\<close> zeros after the digits up to
  \<open>n = 21\<close> and in exponent notation beyond. \<open>shortest x d k\<close> searches \<open>k\<close> upwards for a
  number \<open>x\<close> of \<open>d\<close> decimal digits. For a magnitude below \<open>2 ^ 53\<close> every integer is a
  number of its own, so the shortest digits are all the digits without the zeros at the
  end, and the text is the plain decimal numeral.
\<close>

function shortest :: "nat \<Rightarrow> nat \<Rightarrow> nat \<Rightarrow> nat \<times> nat" where
  "shortest x d k =
     (if d \<le> k then (x, d)
      else
        let p = 10 ^ (d - k); lo = x div p; hi = lo + 1;
            ok_lo = (round_nat (lo * p) = x);
            ok_hi = (hi < 10 ^ k \<and> round_nat (hi * p) = x)
        in if ok_lo \<and> ok_hi then
             (if x - lo * p < hi * p - x then (lo, k)
              else if hi * p - x < x - lo * p then (hi, k)
              else if even lo then (lo, k) else (hi, k))
           else if ok_lo then (lo, k)
           else if ok_hi then (hi, k)
           else shortest x d (k + 1))"
  by pat_completeness auto
termination
  by (relation "measure (\<lambda>(x, d, k). d - k)") auto

declare shortest.simps [simp del]

definition toString_magnitude :: "nat \<Rightarrow> string" where
  "toString_magnitude x =
     (if x < 2 ^ 53 then digits x
      else
        let d = length (digits x);
            (s, k, n) = (if round_nat (10 ^ d) = x then (1, 1, d + 1)
                         else let (s, k) = shortest x d 1 in (s, k, d))
        in if n \<le> 21 then digits s @ replicate (n - k) CHR ''0''
           else if k = 1 then digits s @ ''e+'' @ digits (n - 1)
           else hd (digits s) # CHR ''.'' # tl (digits s) @ ''e+'' @ digits (n - 1))"

definition toString :: "int \<Rightarrow> string" where
  \<comment> \<open>\<^verbatim>\<open>toString()\<close> of the finite number with the integer value \<open>i\<close>\<close>
  "toString i =
     (if i < 0 then CHR ''-'' # toString_magnitude (nat (- i)) else toString_magnitude (nat i))"

definition number_toString :: "number \<Rightarrow> string" where
  "number_toString x =
     (case x of
        Fin i \<Rightarrow> toString i
      | PosInf \<Rightarrow> ''Infinity''
      | NegInf \<Rightarrow> ''-Infinity''
      | NaN \<Rightarrow> ''NaN'')"

text \<open>\<^verbatim>\<open>s.padStart(n, '0')\<close>: zeros in front until the text has \<open>n\<close> characters.\<close>

definition padStart :: "nat \<Rightarrow> char \<Rightarrow> string \<Rightarrow> string" where
  "padStart n c s = replicate (n - length s) c @ s"

text \<open>
  \<^verbatim>\<open>Math.floor(seconds / 60)\<close> divides in binary64 first. \<open>quotient a b\<close> is the number
  nearest to \<open>a / b\<close> for \<open>a \<ge> b\<close>, as the pair \<open>(m, j)\<close> that stands for \<open>m / 2 ^ j\<close>:
  the quotient lies between \<open>2 ^ (bits (a div b) - 1)\<close> and \<open>2 ^ bits (a div b)\<close>, which
  fixes the weight of the last of its 53 bits. A nonzero \<open>a\<close> below \<open>b\<close> gives a number
  strictly between 0 and 1.
\<close>

definition quotient :: "nat \<Rightarrow> nat \<Rightarrow> nat \<times> nat" where
  "quotient a b =
     (let w = bits (a div b)
      in if 53 \<le> w then
           (let e = w - 53; d = b * 2 ^ e
            in (nearest_even (a div d) (a mod d) d * 2 ^ e, 0))
         else
           (let j = 53 - w; n = a * 2 ^ j
            in (nearest_even (n div b) (n mod b) b, j)))"

definition floor_quotient :: "int \<Rightarrow> nat \<Rightarrow> int" where
  "floor_quotient s b =
     (if 0 \<le> s then
        (if s < int b then 0
         else let (m, j) = quotient (nat s) b in int (m div 2 ^ j))
      else
        (if - int b < s then - 1
         else let (m, j) = quotient (nat (- s)) b in - int ((m + 2 ^ j - 1) div 2 ^ j)))"

text \<open>
  The remainder operator \<^verbatim>\<open>%\<close> is exact and takes the sign of the dividend; the remainder
  of an infinity is \<^verbatim>\<open>NaN\<close>.
\<close>

definition js_rem :: "int \<Rightarrow> int \<Rightarrow> int" where
  "js_rem a b = (if a < 0 then - ((- a) mod \<bar>b\<bar>) else a mod \<bar>b\<bar>)"

definition formatTime :: "number \<Rightarrow> string" where
  "formatTime seconds =
     (let minutes = (case seconds of
                       Fin s \<Rightarrow> Fin (floor_quotient s 60)
                     | PosInf \<Rightarrow> PosInf | NegInf \<Rightarrow> NegInf | NaN \<Rightarrow> NaN);
          remainingSeconds = (case seconds of Fin s \<Rightarrow> Fin (js_rem s 60) | _ \<Rightarrow> NaN)
      in padStart 2 CHR ''0'' (number_toString minutes) @ '':''
           @ padStart 2 CHR ''0'' (number_toString remainingSeconds))"

text \<open>Reading a text of decimal digits back as a number, to state what a rendering means.\<close>

definition is_digit :: "char \<Rightarrow> bool" where
  "is_digit c = (c \<in> set ''0123456789'')"

definition digit_value :: "char \<Rightarrow> nat" where
  "digit_value c = of_char c - 48"

definition decimal_value :: "string \<Rightarrow> nat" where
  "decimal_value s = foldl (\<lambda>acc c. 10 * acc + digit_value c) 0 s"

section \<open>Event handlers\<close>

text \<open>
  \<^verbatim>\<open>resetTimer\<close> stops the countdown and, when \<^verbatim>\<open>timers.find\<close> resolves the active id,
  restores the countdown to that timer's duration.
\<close>

definition resetTimer :: "state \<Rightarrow> state" where
  "resetTimer s =
     (let s1 = s\<lparr>isActive := False\<rparr>
      in case find (\<lambda>t. timer_id t = activeTimerId s) (timers s) of
           Some currentTimer \<Rightarrow> s1\<lparr>timeLeft := timer_duration currentTimer\<rparr>
         | None \<Rightarrow> s1)"

definition toggleTimer :: "state \<Rightarrow> state" where
  "toggleTimer s = s\<lparr>isActive := \<not> isActive s\<rparr>"

text \<open>
  \<^verbatim>\<open>addNewTimer\<close> reads the clock: \<open>now\<close> is the value of \<^verbatim>\<open>Date.now()\<close>, an integer
  number of milliseconds.
\<close>

definition addNewTimer :: "int \<Rightarrow> state \<Rightarrow> state" where
  "addNewTimer now s =
     (let newTimer = \<lparr>timer_id = toString now, timer_name = ''New Timer'',
                      timer_duration = Fin (25 * 60)\<rparr>
      in s\<lparr>timers := timers s @ [newTimer]\<rparr>)"

definition startEditing :: "Timer \<Rightarrow> state \<Rightarrow> state" where
  "startEditing timer s =
     s\<lparr>editingTimer := Some \<lparr>edit_id = timer_id timer, edit_name = timer_name timer,
                              edit_duration = timer_duration timer\<rparr>,
       isEditing := True\<rparr>"

definition saveEdit :: "state \<Rightarrow> state" where
  "saveEdit s =
     (let s1 = (case editingTimer s of
                  Some e \<Rightarrow>
                    (let s2 = s\<lparr>timers := map (\<lambda>timer.
                                   if timer_id timer = edit_id e
                                   then timer\<lparr>timer_name := edit_name e, timer_duration := edit_duration e\<rparr>
                                   else timer) (timers s)\<rparr>
                     in if activeTimerId s = edit_id e then s2\<lparr>timeLeft := edit_duration e\<rparr> else s2)
                | None \<Rightarrow> s)
      in s1\<lparr>isEditing := False, editingTimer := None\<rparr>)"

text \<open>The click handler of a timer's button in the list.\<close>

definition selectTimer :: "Timer \<Rightarrow> state \<Rightarrow> state" where
  "selectTimer timer s =
     s\<lparr>activeTimerId := timer_id timer, timeLeft := timer_duration timer, isActive := False\<rparr>"

text \<open>The \<^verbatim>\<open>onChange\<close> handler of the name field; the form only exists while a draft does.\<close>

definition changeName :: "string \<Rightarrow> state \<Rightarrow> state" where
  "changeName text s =
     (case editingTimer s of
        Some e \<Rightarrow> s\<lparr>editingTimer := Some (e\<lparr>edit_name := text\<rparr>)\<rparr>
      | None \<Rightarrow> s)"

subsection \<open>The duration field\<close>

text \<open>
  The text of the duration field is a sequence of UTF-16 code units, here natural
  numbers; \<open>units\<close> gives the code units of an ASCII text.

  \<^verbatim>\<open>parseInt(text)\<close> without a radix, as ECMAScript defines it: leading white space and
  line terminators are dropped, then an optional sign, then \<^verbatim>\<open>0x\<close> or \<^verbatim>\<open>0X\<close> selects
  radix 16 (radix 10 otherwise), then the longest run of digits of that radix is read and
  whatever follows is ignored. No digit at all gives \<^verbatim>\<open>NaN\<close>; otherwise the result is the
  number nearest to the integer read. (ECMAScript lets an implementation read a decimal
  text as if its digits after the 20th significant one were zeros; the engines in use
  round the integer as written, which is what is modelled.)
\<close>

definition units :: "string \<Rightarrow> nat list" where
  "units s = map of_char s"

definition is_space :: "nat \<Rightarrow> bool" where
  "is_space u =
     (u \<in> set [0x09, 0x0A, 0x0B, 0x0C, 0x0D, 0x20, 0xA0, 0x1680,
               0x2000, 0x2001, 0x2002, 0x2003, 0x2004, 0x2005, 0x2006, 0x2007, 0x2008,
               0x2009, 0x200A, 0x2028, 0x2029, 0x202F, 0x205F, 0x3000, 0xFEFF])"

definition is_digit_unit :: "nat \<Rightarrow> bool" where
  "is_digit_unit u = (48 \<le> u \<and> u \<le> 57)"

definition radix_digit :: "nat \<Rightarrow> nat \<Rightarrow> nat option" where
  "radix_digit radix u =
     (let v = (if 48 \<le> u \<and> u \<le> 57 then Some (u - 48)
               else if 97 \<le> u \<and> u \<le> 122 then Some (u - 87)
               else if 65 \<le> u \<and> u \<le> 90 then Some (u - 55)
               else None)
      in case v of
           Some d \<Rightarrow> if d < radix then Some d else None
         | None \<Rightarrow> None)"

fun parse_digits :: "nat \<Rightarrow> nat list \<Rightarrow> nat option \<Rightarrow> nat option" where
  "parse_digits radix [] acc = acc"
| "parse_digits radix (u # us) acc =
     (case radix_digit radix u of
        None \<Rightarrow> acc
      | Some d \<Rightarrow> parse_digits radix us (Some (radix * (case acc of None \<Rightarrow> 0 | Some n \<Rightarrow> n) + d)))"

definition strip_sign :: "nat list \<Rightarrow> int \<times> nat list" where
  "strip_sign s =
     (case s of
        u # r \<Rightarrow> if u = of_char CHR ''-'' then (- 1, r)
                 else if u = of_char CHR ''+'' then (1, r) else (1, s)
      | [] \<Rightarrow> (1, s))"

definition strip_radix :: "nat list \<Rightarrow> nat \<times> nat list" where
  "strip_radix s =
     (case s of
        u # x # r \<Rightarrow> if u = of_char CHR ''0'' \<and> (x = of_char CHR ''x'' \<or> x = of_char CHR ''X'')
                     then (16, r) else (10, s)
      | _ \<Rightarrow> (10, s))"

definition parseInt :: "nat list \<Rightarrow> number" where
  "parseInt text =
     (let (sign, s1) = strip_sign (dropWhile is_space text);
          (radix, s2) = strip_radix s1
      in case parse_digits radix s2 None of
           None \<Rightarrow> NaN
         | Some n \<Rightarrow> fl (sign * int n))"

text \<open>
  \<^verbatim>\<open>handleDurationChange\<close>: the product with 60 is rounded again, and the draft takes it
  when it passes \<^verbatim>\<open>!isNaN(duration) && duration > 0\<close>.
\<close>

definition handleDurationChange :: "nat list \<Rightarrow> state \<Rightarrow> state" where
  "handleDurationChange minutes s =
     (case editingTimer s of
        Some e \<Rightarrow>
          (let duration = num_mul (parseInt minutes) 60
           in if duration \<noteq> NaN \<and> num_gt0 duration
              then s\<lparr>editingTimer := Some (e\<lparr>edit_duration := duration\<rparr>)\<rparr> else s)
      | None \<Rightarrow> s)"

section \<open>Completion\<close>

text \<open>
  Whether the Web Audio calls succeed is decided by the browser, so it is an input of the
  model. The component exists in two versions. \<^verbatim>\<open>playNotificationSound\<close> of the first
  wraps all of its audio code in \<^verbatim>\<open>try\<close>/\<^verbatim>\<open>catch\<close> and logs the error (it is
  \<^verbatim>\<open>async\<close> and its caller does not wait for it); the single-tone
  \<^verbatim>\<open>playNotificationSound\<close> of the second has no handler, so an exception leaves the
  function.
\<close>

datatype audio_outcome = AudioPlays | AudioThrows

datatype error = AudioError

definition audio_calls :: "audio_outcome \<Rightarrow> error + unit" where
  "audio_calls a = (case a of AudioPlays \<Rightarrow> Inr () | AudioThrows \<Rightarrow> Inl AudioError)"

definition playNotificationSound :: "audio_outcome \<Rightarrow> error + unit" where
  "playNotificationSound a = (case audio_calls a of Inl e \<Rightarrow> Inr () | Inr u \<Rightarrow> Inr u)"

definition playNotificationSound_single :: "audio_outcome \<Rightarrow> error + unit" where
  "playNotificationSound_single a = audio_calls a"

text \<open>
  \<^verbatim>\<open>handleTimerComplete\<close>: the sound first, then the three updates. \<^verbatim>\<open>resetTimer\<close>
  reads \<^verbatim>\<open>timers\<close> and \<^verbatim>\<open>activeTimerId\<close> only, which the two updates before it do not
  touch.
\<close>

definition handleTimerComplete :: "audio_outcome \<Rightarrow> state \<Rightarrow> error + state" where
  "handleTimerComplete a s =
     (case playNotificationSound a of
        Inl e \<Rightarrow> Inl e
      | Inr _ \<Rightarrow> Inr (resetTimer (s\<lparr>isActive := False,
                                     completedPomodoros := num_add (completedPomodoros s) 1\<rparr>)))"

definition handleTimerComplete_single :: "audio_outcome \<Rightarrow> state \<Rightarrow> error + state" where
  "handleTimerComplete_single a s =
     (case playNotificationSound_single a of
        Inl e \<Rightarrow> Inl e
      | Inr _ \<Rightarrow> Inr (resetTimer (s\<lparr>isActive := False,
                                     completedPomodoros := num_add (completedPomodoros s) 1\<rparr>)))"

section \<open>The clock\<close>

text \<open>
  The first \<^verbatim>\<open>useEffect\<close> has the dependencies \<^verbatim>\<open>[isActive, timeLeft]\<close>: React runs its
  body after a render in which one of the two changed. The body either arms an interval
  whose callback is \<^verbatim>\<open>setTimeLeft(time => time - 1)\<close>, or, at zero, completes. The
  interval is cleared when the effect runs again, so it exists exactly while the state the
  effect last saw has \<^verbatim>\<open>isActive && timeLeft > 0\<close>.
\<close>

definition intervalArmed :: "state \<Rightarrow> bool" where
  "intervalArmed s = (isActive s \<and> num_gt0 (timeLeft s))"

definition tick :: "state \<Rightarrow> state" where
  "tick s = s\<lparr>timeLeft := num_add (timeLeft s) (- 1)\<rparr>"

definition clockEffect :: "audio_outcome \<Rightarrow> state \<Rightarrow> error + state" where
  "clockEffect a s =
     (if isActive s \<and> num_gt0 (timeLeft s) then Inr s
      else if timeLeft s = Fin 0 then handleTimerComplete a s
      else Inr s)"

definition deps :: "state \<Rightarrow> bool \<times> number" where
  "deps s = (isActive s, timeLeft s)"

text \<open>
  \<open>settle a prev cur\<close>: the component has rendered \<open>cur\<close> after \<open>prev\<close>. While the
  dependencies differ from those of the render before, the effect runs and its updates
  give the next render.
\<close>

function settle :: "audio_outcome \<Rightarrow> state \<Rightarrow> state \<Rightarrow> error + state" where
  "settle a prev cur =
     (if deps cur = deps prev then Inr cur
      else case clockEffect a cur of
             Inl e \<Rightarrow> Inl e
           | Inr nxt \<Rightarrow> settle a cur nxt)"
  by pat_completeness auto
termination
proof (relation "measure (\<lambda>(a, prev, cur).
          if deps cur = deps prev then 0 else if isActive cur then 3
          else if timeLeft cur = Fin 0 then 2 else 1)")
  show "wf (measure (\<lambda>(a, prev, cur).
          if deps cur = deps prev then 0 else if isActive cur then 3
          else if timeLeft cur = Fin 0 then 2 else (1::nat)))"
    by simp
next
  fix a :: audio_outcome and prev cur nxt :: state
  assume "deps cur \<noteq> deps prev" and "clockEffect a cur = Inr nxt"
  then show "((a, cur, nxt), (a, prev, cur)) \<in> measure (\<lambda>(a, prev, cur).
          if deps cur = deps prev then 0 else if isActive cur then 3
          else if timeLeft cur = Fin 0 then 2 else 1)"
    by (auto simp: clockEffect_def handleTimerComplete_def playNotificationSound_def deps_def
                   resetTimer_def Let_def
             split: if_splits option.splits sum.splits)
qed

declare settle.simps [simp del]

section \<open>The component as a state machine\<close>

text \<open>
  One event is one thing that happens to the mounted component: the interval fires, or
  the user uses a control. The JSX shows the edit form while \<^verbatim>\<open>isEditing && editingTimer\<close>
  and the timer list with the controls otherwise, so a control is only there in its view;
  a timer's buttons act on a timer of the rendered list.
\<close>

datatype event =
    Tick
  | ToggleTimer
  | ResetTimer
  | AddNewTimer int
  | SelectTimer Timer
  | StartEditing Timer
  | SaveEdit
  | DurationChange "nat list"
  | NameChange string

definition editView :: "state \<Rightarrow> bool" where
  "editView s = (isEditing s \<and> editingTimer s \<noteq> None)"

fun enabled :: "event \<Rightarrow> state \<Rightarrow> bool" where
  "enabled Tick s = intervalArmed s"
| "enabled ToggleTimer s = (\<not> editView s)"
| "enabled ResetTimer s = (\<not> editView s)"
| "enabled (AddNewTimer now) s = (\<not> editView s)"
| "enabled (SelectTimer timer) s = (\<not> editView s \<and> timer \<in> set (timers s))"
| "enabled (StartEditing timer) s = (\<not> editView s \<and> timer \<in> set (timers s))"
| "enabled SaveEdit s = editView s"
| "enabled (DurationChange minutes) s = editView s"
| "enabled (NameChange text) s = editView s"

fun handler :: "event \<Rightarrow> state \<Rightarrow> state" where
  "handler Tick s = tick s"
| "handler ToggleTimer s = toggleTimer s"
| "handler ResetTimer s = resetTimer s"
| "handler (AddNewTimer now) s = addNewTimer now s"
| "handler (SelectTimer timer) s = selectTimer timer s"
| "handler (StartEditing timer) s = startEditing timer s"
| "handler SaveEdit s = saveEdit s"
| "handler (DurationChange minutes) s = handleDurationChange minutes s"
| "handler (NameChange text) s = changeName text s"

text \<open>
  A step is the handler's update followed by the effect runs it causes; an event that
  cannot happen in a state leaves it alone. \<open>Inl\<close> is an exception that left an effect.
\<close>

definition step :: "audio_outcome \<Rightarrow> event \<Rightarrow> state \<Rightarrow> error + state" where
  "step a e s = (if enabled e s then settle a s (handler e s) else Inr s)"

fun run :: "audio_outcome \<Rightarrow> event list \<Rightarrow> state \<Rightarrow> error + state" where
  "run a [] s = Inr s"
| "run a (e # es) s = (case step a e s of Inl x \<Rightarrow> Inl x | Inr s' \<Rightarrow> run a es s')"

inductive reachable :: "state \<Rightarrow> bool" where
  mount: "reachable initial_state"
| event: "reachable s \<Longrightarrow> enabled e s \<Longrightarrow> step a e s = Inr s' \<Longrightarrow> reachable s'"

text \<open>
  The id of a new timer is the clock reading as text. \<open>fresh_clock\<close> says that the
  reading of an \<open>AddNewTimer\<close> event gives an id that no timer of the collection has;
  \<open>fresh_reachable\<close> are the states reached when every reading is of that kind.
\<close>

fun fresh_clock :: "event \<Rightarrow> state \<Rightarrow> bool" where
  "fresh_clock (AddNewTimer now) s = (toString now \<notin> set (map timer_id (timers s)))"
| "fresh_clock e s = True"

inductive fresh_reachable :: "state \<Rightarrow> bool" where
  fresh_mount: "fresh_reachable initial_state"
| fresh_event: "fresh_reachable s \<Longrightarrow> enabled e s \<Longrightarrow> fresh_clock e s \<Longrightarrow> step a e s = Inr s'
                \<Longrightarrow> fresh_reachable s'"

text \<open>
  What holds of every state the mounted component can be in between events: the
  countdown and all durations are positive, and the active id is the id of a timer.
\<close>

definition wellFormed :: "state \<Rightarrow> bool" where
  "wellFormed s =
     (num_gt0 (timeLeft s)
      \<and> list_all (\<lambda>t. num_gt0 (timer_duration t)) (timers s)
      \<and> (case editingTimer s of None \<Rightarrow> True | Some e \<Rightarrow> num_gt0 (edit_duration e))
      \<and> activeTimerId s \<in> set (map timer_id (timers s)))"

section \<open>Rounding\<close>

text \<open>
  Integers of magnitude up to \<open>2 ^ 53\<close> are numbers of their own; beyond \<open>2 ^ 1024\<close>
  rounding gives an infinity; rounding keeps the sign.
\<close>

lemma bits_le: "n < 2 ^ k \<Longrightarrow> bits n \<le> k"
proof (induction k arbitrary: n)
  case 0
  then show ?case by (subst bits.simps) simp
next
  case (Suc k)
  then have "n div 2 < 2 ^ k" by simp
  then have "bits (n div 2) \<le> k" by (rule Suc.IH)
  then show ?case by (subst bits.simps) simp
qed

lemma pos_of_power_le: "2 ^ k \<le> n \<Longrightarrow> 0 < (n::nat)"
  by (rule less_le_trans [of 0 "2 ^ k"]) simp_all

lemma bits_gt: "2 ^ k \<le> n \<Longrightarrow> k < bits n"
proof (induction k arbitrary: n)
  case 0
  then show ?case by (subst bits.simps) simp
next
  case (Suc k)
  then have "2 ^ k \<le> n div 2" by simp
  then have "k < bits (n div 2)" by (rule Suc.IH)
  moreover have "n \<noteq> 0" using pos_of_power_le [OF Suc.prems] by simp
  ultimately show ?case by (subst bits.simps) simp
qed

lemma bits_eqI: "2 ^ k \<le> n \<Longrightarrow> n < 2 ^ Suc k \<Longrightarrow> bits n = Suc k"
  using bits_le [of n "Suc k"] bits_gt [of k n] by simp

lemma bits_lower: "0 < n \<Longrightarrow> 2 ^ (bits n - 1) \<le> n"
proof (rule ccontr)
  assume n: "0 < n" and "\<not> 2 ^ (bits n - 1) \<le> n"
  then have "n < 2 ^ (bits n - 1)" by simp
  then have "bits n \<le> bits n - 1" by (rule bits_le)
  moreover have "0 < bits n" using n by (subst bits.simps) simp
  ultimately show False by simp
qed

lemma round_nat_small: "n < 2 ^ 53 \<Longrightarrow> round_nat n = n"
  using bits_le [of n 53] by (simp add: round_nat_def)

lemma round_nat_exact: "n \<le> 2 ^ 53 \<Longrightarrow> round_nat n = n"
proof (cases "n < 2 ^ 53")
  case True
  then show ?thesis by (rule round_nat_small)
next
  case False
  assume "n \<le> 2 ^ 53"
  with False have n: "n = 2 ^ 53" by simp
  have "bits n = Suc 53" unfolding n by (rule bits_eqI) simp_all
  then show ?thesis by (simp add: round_nat_def nearest_even_def n)
qed

lemma fl_exact: "\<bar>i\<bar> \<le> 2 ^ 53 \<Longrightarrow> fl i = Fin i"
proof -
  assume a: "\<bar>i\<bar> \<le> 2 ^ 53"
  then have "nat \<bar>i\<bar> \<le> 2 ^ 53" by (simp add: nat_le_iff)
  then have r: "round_nat (nat \<bar>i\<bar>) = nat \<bar>i\<bar>" by (rule round_nat_exact)
  have "nat \<bar>i\<bar> < 2 ^ 1024" using \<open>nat \<bar>i\<bar> \<le> 2 ^ 53\<close>
    by (rule le_less_trans) simp
  then show ?thesis by (simp add: fl_def r Let_def)
qed

lemma nearest_even_ge: "q \<le> nearest_even q r d"
  by (simp add: nearest_even_def)

lemma round_nat_ge: "0 < n \<Longrightarrow> 0 < round_nat n"
proof -
  assume n: "0 < n"
  let ?e = "bits n - 53"
  show ?thesis
  proof (cases "?e = 0")
    case True
    with n show ?thesis by (simp add: round_nat_def)
  next
    case False
    have "2 ^ ?e \<le> (2::nat) ^ (bits n - 1)" by (rule power_increasing) simp_all
    also have "\<dots> \<le> n" using n by (rule bits_lower)
    finally have "0 < n div 2 ^ ?e" by (simp add: div_greater_zero_iff)
    then have "0 < nearest_even (n div 2 ^ ?e) (n mod 2 ^ ?e) (2 ^ ?e)"
      using nearest_even_ge [of "n div 2 ^ ?e"] by (rule less_le_trans)
    with False show ?thesis by (simp add: round_nat_def Let_def)
  qed
qed

lemma fl_zero: "fl 0 = Fin 0"
  by (rule fl_exact) simp

lemma fl_pos: "0 < i \<Longrightarrow> num_gt0 (fl i)"
  using round_nat_ge [of "nat \<bar>i\<bar>"] by (simp add: fl_def Let_def num_gt0_def)



lemma fl_above_2_53: "fl 9007199254741019 = Fin 9007199254741020"
proof -
  have "bits 9007199254741019 = Suc 53" by (rule bits_eqI) simp_all
  then show ?thesis by (simp add: fl_def round_nat_def nearest_even_def Let_def)
qed

lemma fl_9007199254741020: "fl 9007199254741020 = Fin 9007199254741020"
proof -
  have "bits 9007199254741020 = Suc 53" by (rule bits_eqI) simp_all
  then show ?thesis by (simp add: fl_def round_nat_def nearest_even_def Let_def)
qed

lemma num_gt0_simps [simp]:
  "num_gt0 (Fin i) = (0 < i)" "num_gt0 PosInf" "\<not> num_gt0 NegInf" "\<not> num_gt0 NaN"
  by (simp_all add: num_gt0_def)

lemma num_ge0_simps [simp]:
  "num_ge0 (Fin i) = (0 \<le> i)" "num_ge0 PosInf" "\<not> num_ge0 NegInf" "\<not> num_ge0 NaN"
  by (simp_all add: num_ge0_def)

lemma num_gt0_ge0: "num_gt0 x \<Longrightarrow> num_ge0 x"
  by (cases x) simp_all

lemma num_add_exact: "\<bar>i + c\<bar> \<le> 2 ^ 53 \<Longrightarrow> num_add (Fin i) c = Fin (i + c)"
  by (simp add: num_add_def fl_exact)

lemma num_mul_exact: "\<bar>i * c\<bar> \<le> 2 ^ 53 \<Longrightarrow> num_mul (Fin i) c = Fin (i * c)"
  by (simp add: num_mul_def fl_exact)

section \<open>Rendering the countdown\<close>

text \<open>
  Facts about the decimal digits of a number, read back with \<open>decimal_value\<close>, and about
  the division by 60 below \<open>2 ^ 53\<close>.
\<close>

lemma digit_value_digit_char: "digit_value (digit_char d) = d mod 10"
proof -
  have "d mod 10 \<in> set [0..<10]" by simp
  then show ?thesis
    unfolding digit_char_def digit_value_def
    by (simp add: upt_rec) (elim disjE; simp)
qed

lemma is_digit_digit_char: "is_digit (digit_char d)"
proof -
  have "d mod 10 \<in> set [0..<10]" by simp
  then show ?thesis
    unfolding digit_char_def is_digit_def
    by (simp add: upt_rec) (elim disjE; simp)
qed

lemma digit_char_zero_iff: "digit_char d = CHR ''0'' \<longleftrightarrow> d mod 10 = 0"
proof -
  have "d mod 10 \<in> set [0..<10]" by simp
  then show ?thesis
    unfolding digit_char_def
    by (simp add: upt_rec) (elim disjE; simp)
qed

lemma decimal_value_snoc: "decimal_value (s @ [c]) = 10 * decimal_value s + digit_value c"
  by (simp add: decimal_value_def)

lemma decimal_value_digits: "decimal_value (digits n) = n"
proof (induction n rule: digits.induct)
  case (1 n)
  show ?case
  proof (cases "n < 10")
    case True
    then show ?thesis
      by (subst digits.simps) (simp add: decimal_value_def digit_value_digit_char)
  next
    case False
    with 1 show ?thesis
      by (subst digits.simps) (simp add: decimal_value_snoc digit_value_digit_char)
  qed
qed

lemma digits_all_digit: "list_all is_digit (digits n)"
proof (induction n rule: digits.induct)
  case (1 n)
  then show ?case
    by (subst digits.simps) (simp add: is_digit_digit_char)
qed

lemma length_digits_pos: "0 < length (digits n)"
  by (subst digits.simps) simp

lemma length_digits_small: "n < 10 \<Longrightarrow> length (digits n) = 1"
  by (subst digits.simps) simp

lemma length_digits_two: "10 \<le> n \<Longrightarrow> n < 100 \<Longrightarrow> length (digits n) = 2"
  by (subst digits.simps) (simp add: length_digits_small)

lemma length_digits_ge2: "10 \<le> n \<Longrightarrow> 2 \<le> length (digits n)"
proof -
  assume "10 \<le> n"
  moreover have "Suc 0 \<le> length (digits (n div 10))"
    using length_digits_pos [of "n div 10"] by linarith
  ultimately show ?thesis
    by (subst digits.simps) simp
qed

lemma hd_digits_nonzero: "0 < n \<Longrightarrow> hd (digits n) \<noteq> CHR ''0''"
proof (induction n rule: digits.induct)
  case (1 n)
  show ?case
  proof (cases "n < 10")
    case True
    with 1(2) show ?thesis
      by (subst digits.simps) (simp add: digit_char_zero_iff)
  next
    case False
    then have "0 < n div 10" by simp
    with 1(1) False have "hd (digits (n div 10)) \<noteq> CHR ''0''" by simp
    moreover have "digits (n div 10) \<noteq> []" using length_digits_pos [of "n div 10"] by auto
    ultimately show ?thesis using False
      by (subst digits.simps) (simp add: hd_append)
  qed
qed

lemma decimal_value_zero_Cons: "decimal_value (CHR ''0'' # t) = decimal_value t"
  by (simp add: decimal_value_def digit_value_def)

lemma padStart_small: "k < 10 \<Longrightarrow> padStart 2 CHR ''0'' (digits k) = [CHR ''0'', digit_char k]"
  by (subst digits.simps) (simp add: padStart_def)

lemma padStart_large: "10 \<le> k \<Longrightarrow> padStart 2 CHR ''0'' (digits k) = digits k"
  using length_digits_ge2 [of k] by (simp add: padStart_def)

lemma padStart_digits_props:
  "list_all is_digit (padStart 2 CHR ''0'' (digits k))
   \<and> decimal_value (padStart 2 CHR ''0'' (digits k)) = k
   \<and> 2 \<le> length (padStart 2 CHR ''0'' (digits k))
   \<and> (k < 100 \<longrightarrow> length (padStart 2 CHR ''0'' (digits k)) = 2)
   \<and> (10 \<le> k \<longrightarrow> hd (padStart 2 CHR ''0'' (digits k)) \<noteq> CHR ''0'')"
proof (cases "k < 10")
  case True
  have "decimal_value [CHR ''0'', digit_char k] = k"
    using True digit_value_digit_char [of k]
    by (simp add: decimal_value_zero_Cons) (simp add: decimal_value_def)
  moreover have "is_digit CHR ''0''" by (simp add: is_digit_def)
  ultimately show ?thesis
    using True by (simp add: padStart_small is_digit_digit_char)
next
  case False
  then have k: "10 \<le> k" by simp
  then have "0 < k" by simp
  then show ?thesis
    using k length_digits_ge2 [of k] length_digits_two [of k] hd_digits_nonzero [of k]
    by (simp add: padStart_large digits_all_digit decimal_value_digits)
qed


lemma toString_small: "\<bar>i\<bar> < 2 ^ 53 \<Longrightarrow> toString i = (if i < 0 then CHR ''-'' # digits (nat (- i)) else digits (nat i))"
proof -
  assume a: "\<bar>i\<bar> < 2 ^ 53"
  have "nat (- i) < 2 ^ 53" using a by (simp add: nat_less_iff)
  moreover have "nat i < 2 ^ 53" using a by (simp add: nat_less_iff)
  ultimately show ?thesis by (simp add: toString_def toString_magnitude_def)
qed

lemma quotient_floor:
  assumes "60 \<le> a" and "a < 2 ^ 53"
  shows "(case quotient a 60 of (m, j) \<Rightarrow> m div 2 ^ j) = a div 60"
proof -
  define Q where "Q = a div 60"
  define R where "R = a mod 60"
  have a: "a = 60 * Q + R" and R: "R < 60" by (simp_all add: Q_def R_def)
  have "Q < 2 ^ 48" using assms(2) by (simp add: Q_def less_mult_imp_div_less)
  then have w: "bits Q \<le> 48" by (rule bits_le)
  define j where "j = 53 - bits Q"
  define P where "P = (2::nat) ^ j"
  have "5 \<le> j" using w by (simp add: j_def)
  then have "(2::nat) ^ 5 \<le> 2 ^ j" by (intro power_increasing) simp_all
  then have P: "32 \<le> P" by (simp add: P_def)
  define n where "n = a * P"
  define q where "q = n div 60"
  define r where "r = n mod 60"
  define X where "X = Q * P"
  define Y where "Y = R * P"
  have n: "n = 60 * q + r" and r: "r < 60" by (simp_all add: q_def r_def)
  have nX: "n = 60 * X + Y" by (simp add: n_def a X_def Y_def algebra_simps)
  have Y: "Y \<le> 59 * P"
    unfolding Y_def using R by (intro mult_le_mono1) simp
  define m where "m = nearest_even q r 60"
  have lo: "X \<le> m"
  proof -
    have "X \<le> q" using n nX r by linarith
    then show ?thesis using nearest_even_ge [of q r 60] by (simp add: m_def)
  qed
  have hi: "m < X + P"
  proof (cases "m = q")
    case True
    then show ?thesis using n nX Y P by linarith
  next
    case False
    then have "m = q + 1 \<and> 30 \<le> r"
      by (auto simp: m_def nearest_even_def split: if_splits)
    then show ?thesis using n nX Y P by linarith
  qed
  have "m div P = Q"
  proof (rule div_nat_eqI)
    show "P * Q \<le> m" using lo by (simp add: X_def mult.commute)
    show "m < P * Suc Q" using hi by (simp add: X_def mult.commute)
  qed
  moreover have "quotient a 60 = (m, j)"
    using w by (simp add: quotient_def Let_def m_def q_def r_def n_def P_def j_def Q_def)
  ultimately show ?thesis by (simp add: P_def Q_def)
qed

lemma floor_quotient_small: "0 \<le> s \<Longrightarrow> s < 2 ^ 53 \<Longrightarrow> floor_quotient s 60 = s div 60"
proof (cases "s < 60")
  case True
  assume "0 \<le> s"
  with True show ?thesis by (simp add: floor_quotient_def)
next
  case False
  assume s: "0 \<le> s" "s < 2 ^ 53"
  have "60 \<le> nat s" using False by simp
  moreover have "nat s < 2 ^ 53" using s by (simp add: nat_less_iff)
  ultimately have "(case quotient (nat s) 60 of (m, j) \<Rightarrow> m div 2 ^ j) = nat s div 60"
    by (rule quotient_floor)
  then have "(case quotient (nat s) 60 of (m, j) \<Rightarrow> int (m div 2 ^ j)) = int (nat s div 60)"
    by (simp split: prod.splits)
  moreover have "int (nat s div 60) = s div 60" using s(1) by (simp add: zdiv_int)
  ultimately show ?thesis using False s(1) by (simp add: floor_quotient_def)
qed

lemma formatTime_safe:
  assumes "0 \<le> s" and "s < 2 ^ 53"
  shows "formatTime (Fin s) =
     padStart 2 CHR ''0'' (digits (nat (s div 60))) @ '':'' @ padStart 2 CHR ''0'' (digits (nat (s mod 60)))"
proof -
  have m0: "\<not> s div 60 < 0" and r0: "\<not> s mod 60 < 0"
    using assms(1) by (simp_all add: not_less)
  have "s div 60 \<le> s div 1" using assms(1) by (intro zdiv_mono2) simp_all
  then have "s div 60 \<le> s" by simp
  then have "\<bar>s div 60\<bar> < 2 ^ 53" using assms m0 by simp
  then have m: "toString (s div 60) = digits (nat (s div 60))"
    using m0 by (simp add: toString_small)
  have "s mod 60 < 60" by simp
  then have "\<bar>s mod 60\<bar> < 2 ^ 53" using r0 by simp
  then have r: "toString (s mod 60) = digits (nat (s mod 60))"
    using r0 by (simp add: toString_small)
  have "js_rem s 60 = s mod 60" using assms(1) by (simp add: js_rem_def)
  then show ?thesis
    using assms by (simp add: formatTime_def Let_def number_toString_def floor_quotient_small m r)
qed

text \<open>
  Claim C9 says that for every non-negative integer \<open>s\<close> the text of \<^verbatim>\<open>formatTime(s)\<close>
  is \<open>s div 60\<close> and \<open>s mod 60\<close> as zero-padded decimal fields. The argument is a
  binary64 number: at 60000000000000000000000 seconds (the countdown after 1e21 minutes
  are committed for the active timer) the minutes are 1e21, which \<^verbatim>\<open>toString\<close> prints in
  exponent notation, and the text is \<^verbatim>\<open>1e+21:00\<close>.
\<close>

theorem formatTime_exponent_counterexample:
  "formatTime (Fin 60000000000000000000000) = ''1e+21:00''
   \<and> \<not> list_all is_digit ''1e+21''"
proof -
  have b21: "bits 1000000000000000000000 = Suc 69" by (rule bits_eqI) simp_all
  have b21': "bits 2000000000000000000000 = Suc 70" by (rule bits_eqI) simp_all
  have b22: "bits 10000000000000000000000 = Suc 73" by (rule bits_eqI) simp_all
  have q: "floor_quotient 60000000000000000000000 60 = 1000000000000000000000"
    by (simp add: floor_quotient_def quotient_def nearest_even_def Let_def b21)
  have d: "digits 1000000000000000000000 = ''1000000000000000000000''"
    by (simp add: digits.simps digit_char_def)
  have r21: "round_nat 1000000000000000000000 = 1000000000000000000000"
    by (simp add: round_nat_def nearest_even_def Let_def b21)
  have r21': "round_nat 2000000000000000000000 \<noteq> 1000000000000000000000"
    by (simp add: round_nat_def nearest_even_def Let_def b21')
  have r22: "round_nat 10000000000000000000000 \<noteq> 1000000000000000000000"
    by (simp add: round_nat_def nearest_even_def Let_def b22)
  have s: "shortest 1000000000000000000000 22 (Suc 0) = (1, 1)"
    using r21 r21' by (subst shortest.simps) (simp add: Let_def)
  have len: "length (digits 1000000000000000000000) = 22"
    by (simp add: d)
  have big: "\<not> (1000000000000000000000::nat) < 2 ^ 53" by simp
  have "toString_magnitude 1000000000000000000000 = ''1e+21''"
    unfolding toString_magnitude_def len
    using r22 by (simp add: big s digits.simps digit_char_def)
  then have t: "toString 1000000000000000000000 = ''1e+21''"
    by (simp add: toString_def)
  have z: "toString 0 = ''0''"
    by (simp add: toString_small digits.simps digit_char_def)
  have "formatTime (Fin 60000000000000000000000) = ''1e+21:00''"
    by (simp add: formatTime_def Let_def number_toString_def q t z js_rem_def padStart_def)
  moreover have "\<not> list_all is_digit ''1e+21''" by (simp add: is_digit_def)
  ultimately show ?thesis by simp
qed

text \<open>
  Claim C9, amended. \<^verbatim>\<open>formatTime\<close> pads minutes and seconds with zeros to two digits:
  \<^verbatim>\<open>formatTime(0)\<close> is \<^verbatim>\<open>00:00\<close>, \<^verbatim>\<open>formatTime(65)\<close> is \<^verbatim>\<open>01:05\<close>,
  \<^verbatim>\<open>formatTime(1500)\<close> is \<^verbatim>\<open>25:00\<close>, and for every integer \<open>s\<close> with
  \<open>0 \<le> s < 2 ^ 53\<close> the text is a field of decimal digits that reads \<open>s div 60\<close>, a
  colon, and a field of exactly two decimal digits that reads \<open>s mod 60\<close>. The minutes
  field has two characters up to 99 minutes and no leading zero from 10 minutes on, so it
  widens beyond 99 minutes.
\<close>

theorem formatTime_zero_padded:
  "formatTime (Fin 0) = ''00:00'' \<and> formatTime (Fin 65) = ''01:05''
   \<and> formatTime (Fin 1500) = ''25:00''
   \<and> (0 \<le> s \<and> s < 2 ^ 53 \<longrightarrow>
        (\<exists>mm ss. formatTime (Fin s) = mm @ '':'' @ ss
           \<and> list_all is_digit mm \<and> list_all is_digit ss
           \<and> int (decimal_value mm) = s div 60 \<and> int (decimal_value ss) = s mod 60
           \<and> length ss = 2 \<and> 2 \<le> length mm
           \<and> (s < 6000 \<longrightarrow> length mm = 2)
           \<and> (600 \<le> s \<longrightarrow> hd mm \<noteq> CHR ''0'')))"
proof (intro conjI impI)
  show "formatTime (Fin 0) = ''00:00''"
    by (simp add: formatTime_safe padStart_def digits.simps digit_char_def)
  show "formatTime (Fin 65) = ''01:05''"
    by (simp add: formatTime_safe padStart_def digits.simps digit_char_def)
  show "formatTime (Fin 1500) = ''25:00''"
    by (simp add: formatTime_safe padStart_def digits.simps digit_char_def)
next
  assume "0 \<le> s \<and> s < 2 ^ 53"
  then have s: "0 \<le> s" and b: "s < 2 ^ 53" by simp_all
  define m where "m = nat (s div 60)"
  define r where "r = nat (s mod 60)"
  have m: "int m = s div 60" using s by (simp add: m_def)
  have r: "int r = s mod 60" by (simp add: r_def)
  have r60: "r < 100" using r by (simp add: r_def)
  have small: "s < 6000 \<longrightarrow> m < 100" using s by (auto simp: m_def)
  have large: "600 \<le> s \<longrightarrow> 10 \<le> m" using s by (auto simp: m_def)
  let ?mm = "padStart 2 CHR ''0'' (digits m)"
  let ?ss = "padStart 2 CHR ''0'' (digits r)"
  have "formatTime (Fin s) = ?mm @ '':'' @ ?ss"
    using s b by (simp add: formatTime_safe m_def r_def)
  moreover have "list_all is_digit ?mm" "list_all is_digit ?ss"
    using padStart_digits_props by blast+
  moreover have "int (decimal_value ?mm) = s div 60" "int (decimal_value ?ss) = s mod 60"
    using padStart_digits_props [of m] padStart_digits_props [of r] m r by simp_all
  moreover have "length ?ss = 2" using padStart_digits_props [of r] r60 by blast
  moreover have "2 \<le> length ?mm" using padStart_digits_props [of m] by blast
  moreover have "s < 6000 \<longrightarrow> length ?mm = 2" using padStart_digits_props [of m] small by blast
  moreover have "600 \<le> s \<longrightarrow> hd ?mm \<noteq> CHR ''0''" using padStart_digits_props [of m] large by blast
  ultimately show "\<exists>mm ss. formatTime (Fin s) = mm @ '':'' @ ss
           \<and> list_all is_digit mm \<and> list_all is_digit ss
           \<and> int (decimal_value mm) = s div 60 \<and> int (decimal_value ss) = s mod 60
           \<and> length ss = 2 \<and> 2 \<le> length mm
           \<and> (s < 6000 \<longrightarrow> length mm = 2)
           \<and> (600 \<le> s \<longrightarrow> hd mm \<noteq> CHR ''0'')"
    by blast
qed

theorem formatTime_zero_padded_witness:
  "(0::int) \<le> 7325 \<and> (7325::int) < 2 ^ 53 \<and> formatTime (Fin 7325) = ''122:05''
   \<and> (\<exists>mm ss. formatTime (Fin 7325) = mm @ '':'' @ ss
           \<and> list_all is_digit mm \<and> list_all is_digit ss
           \<and> int (decimal_value mm) = 122 \<and> int (decimal_value ss) = 5
           \<and> length ss = 2 \<and> 2 \<le> length mm \<and> hd mm \<noteq> CHR ''0'')"
proof -
  have f: "formatTime (Fin 7325) = ''122:05''"
    by (simp add: formatTime_safe padStart_def digits.simps digit_char_def)
  have h: "(0::int) \<le> 7325 \<and> (7325::int) < 2 ^ 53" by simp
  from formatTime_zero_padded [of 7325] h
  have "\<exists>mm ss. formatTime (Fin 7325) = mm @ '':'' @ ss
           \<and> list_all is_digit mm \<and> list_all is_digit ss
           \<and> int (decimal_value mm) = 7325 div 60 \<and> int (decimal_value ss) = 7325 mod 60
           \<and> length ss = 2 \<and> 2 \<le> length mm
           \<and> ((7325::int) < 6000 \<longrightarrow> length mm = 2)
           \<and> ((600::int) \<le> 7325 \<longrightarrow> hd mm \<noteq> CHR ''0'')"
    by blast
  then show ?thesis using f h by simp
qed

section \<open>What the effect does after an update\<close>

lemma handleTimerComplete_Inr:
  "handleTimerComplete a s =
     Inr (resetTimer (s\<lparr>isActive := False, completedPomodoros := num_add (completedPomodoros s) 1\<rparr>))"
  by (cases a) (simp_all add: handleTimerComplete_def playNotificationSound_def audio_calls_def)

lemma find_absent: "a \<notin> set (map timer_id ts) \<Longrightarrow> find (\<lambda>t. timer_id t = a) ts = None"
  by (induction ts) auto

lemma settle_same: "deps cur = deps prev \<Longrightarrow> settle a prev cur = Inr cur"
  by (subst settle.simps) simp

lemma clockEffect_quiet: "timeLeft cur \<noteq> Fin 0 \<Longrightarrow> clockEffect a cur = Inr cur"
  by (simp add: clockEffect_def)

lemma settle_quiet: "timeLeft cur \<noteq> Fin 0 \<Longrightarrow> settle a prev cur = Inr cur"
  by (subst settle.simps) (simp add: clockEffect_quiet settle_same)

lemma settle_complete:
  assumes "timeLeft cur = Fin 0"
    and "find (\<lambda>t. timer_id t = activeTimerId cur) (timers cur) = Some t"
    and "timer_duration t \<noteq> Fin 0"
    and "deps cur \<noteq> deps prev"
  shows "settle a prev cur =
           Inr (cur\<lparr>isActive := False, completedPomodoros := num_add (completedPomodoros cur) 1,
                    timeLeft := timer_duration t\<rparr>)"
proof -
  let ?c = "cur\<lparr>isActive := False, completedPomodoros := num_add (completedPomodoros cur) 1,
                 timeLeft := timer_duration t\<rparr>"
  have "clockEffect a cur = Inr ?c"
    using assms(1,2) by (simp add: clockEffect_def handleTimerComplete_Inr resetTimer_def)
  moreover have "settle a cur ?c = Inr ?c"
    using assms(3) by (simp add: settle_quiet)
  ultimately show ?thesis
    using assms(4) by (subst settle.simps) simp
qed

section \<open>Selecting, adding and resetting\<close>

text \<open>
  Claim C5. Selecting a timer of the collection sets \<^verbatim>\<open>activeTimerId\<close> to its id, sets
  \<^verbatim>\<open>timeLeft\<close> to its stored duration and sets \<^verbatim>\<open>isActive\<close> to false, whatever the
  state before, running or not; nothing else changes, and for a duration other than zero
  the effect that follows adds nothing.
\<close>

theorem selectTimer_stops_and_loads:
  "timer \<in> set (timers s) \<Longrightarrow>
     activeTimerId (selectTimer timer s) = timer_id timer
     \<and> timeLeft (selectTimer timer s) = timer_duration timer
     \<and> isActive (selectTimer timer s) = False
     \<and> timers (selectTimer timer s) = timers s
     \<and> completedPomodoros (selectTimer timer s) = completedPomodoros s
     \<and> isEditing (selectTimer timer s) = isEditing s
     \<and> editingTimer (selectTimer timer s) = editingTimer s
     \<and> (timer_duration timer \<noteq> Fin 0 \<longrightarrow> settle a s (selectTimer timer s) = Inr (selectTimer timer s))"
  by (simp add: selectTimer_def settle_quiet)

theorem selectTimer_stops_and_loads_witness:
  "\<lparr>timer_id = ''1'', timer_name = ''Work'', timer_duration = Fin 1500\<rparr>
      \<in> set (timers (initial_state\<lparr>isActive := True, timeLeft := Fin 7\<rparr>))
   \<and> Fin 1500 \<noteq> Fin 0
   \<and> settle AudioPlays (initial_state\<lparr>isActive := True, timeLeft := Fin 7\<rparr>)
        (selectTimer \<lparr>timer_id = ''1'', timer_name = ''Work'', timer_duration = Fin 1500\<rparr>
           (initial_state\<lparr>isActive := True, timeLeft := Fin 7\<rparr>))
      = Inr initial_state"
  using selectTimer_stops_and_loads
          [of "\<lparr>timer_id = ''1'', timer_name = ''Work'', timer_duration = Fin 1500\<rparr>"
              "initial_state\<lparr>isActive := True, timeLeft := Fin 7\<rparr>" AudioPlays]
  by (simp add: initial_state_def selectTimer_def)

text \<open>
  Claim C6. \<^verbatim>\<open>addNewTimer\<close> appends exactly one timer at the end of the collection, named
  \<^verbatim>\<open>New Timer\<close> and lasting 1500 seconds, and leaves \<^verbatim>\<open>activeTimerId\<close>,
  \<^verbatim>\<open>timeLeft\<close>, \<^verbatim>\<open>isActive\<close>, \<^verbatim>\<open>completedPomodoros\<close>, \<^verbatim>\<open>isEditing\<close>, the draft and
  all timers already there as they were; no effect run follows.
\<close>

theorem addNewTimer_appends_default:
  "timers (addNewTimer now s) =
       timers s @ [\<lparr>timer_id = toString now, timer_name = ''New Timer'', timer_duration = Fin 1500\<rparr>]
   \<and> activeTimerId (addNewTimer now s) = activeTimerId s
   \<and> timeLeft (addNewTimer now s) = timeLeft s
   \<and> isActive (addNewTimer now s) = isActive s
   \<and> completedPomodoros (addNewTimer now s) = completedPomodoros s
   \<and> isEditing (addNewTimer now s) = isEditing s
   \<and> editingTimer (addNewTimer now s) = editingTimer s
   \<and> settle a s (addNewTimer now s) = Inr (addNewTimer now s)"
  by (simp add: addNewTimer_def settle_same deps_def)

text \<open>
  Claim C10. \<^verbatim>\<open>resetTimer\<close> always sets \<^verbatim>\<open>isActive\<close> to false. When
  \<^verbatim>\<open>activeTimerId\<close> resolves to a timer of the collection, \<^verbatim>\<open>timeLeft\<close> becomes that
  timer's stored duration; when no timer has that id, \<^verbatim>\<open>timeLeft\<close> stays as it is. The
  timers, \<^verbatim>\<open>activeTimerId\<close>, \<^verbatim>\<open>completedPomodoros\<close>, \<^verbatim>\<open>isEditing\<close> and the draft
  are unchanged in both cases.
\<close>

theorem resetTimer_effect:
  "isActive (resetTimer s) = False
   \<and> (find (\<lambda>t. timer_id t = activeTimerId s) (timers s) = Some t
        \<longrightarrow> timeLeft (resetTimer s) = timer_duration t)
   \<and> (activeTimerId s \<notin> set (map timer_id (timers s))
        \<longrightarrow> timeLeft (resetTimer s) = timeLeft s)
   \<and> timers (resetTimer s) = timers s
   \<and> activeTimerId (resetTimer s) = activeTimerId s
   \<and> completedPomodoros (resetTimer s) = completedPomodoros s
   \<and> isEditing (resetTimer s) = isEditing s
   \<and> editingTimer (resetTimer s) = editingTimer s"
proof -
  have "activeTimerId s \<notin> set (map timer_id (timers s)) \<longrightarrow> timeLeft (resetTimer s) = timeLeft s"
    using find_absent [of "activeTimerId s" "timers s"] by (simp add: resetTimer_def)
  then show ?thesis
    by (simp add: resetTimer_def Let_def split: option.splits)
qed

theorem resetTimer_effect_witness:
  "find (\<lambda>t. timer_id t = activeTimerId (initial_state\<lparr>isActive := True, timeLeft := Fin 7\<rparr>))
        (timers (initial_state\<lparr>isActive := True, timeLeft := Fin 7\<rparr>))
     = Some \<lparr>timer_id = ''1'', timer_name = ''Work'', timer_duration = Fin 1500\<rparr>
   \<and> resetTimer (initial_state\<lparr>isActive := True, timeLeft := Fin 7\<rparr>) = initial_state
   \<and> activeTimerId (initial_state\<lparr>isActive := True, timeLeft := Fin 7, activeTimerId := ''2''\<rparr>)
        \<notin> set (map timer_id (timers (initial_state\<lparr>isActive := True, timeLeft := Fin 7, activeTimerId := ''2''\<rparr>)))
   \<and> timeLeft (resetTimer (initial_state\<lparr>isActive := True, timeLeft := Fin 7, activeTimerId := ''2''\<rparr>)) = Fin 7
   \<and> isActive (resetTimer (initial_state\<lparr>isActive := True, timeLeft := Fin 7, activeTimerId := ''2''\<rparr>)) = False"
  using resetTimer_effect
          [of "initial_state\<lparr>isActive := True, timeLeft := Fin 7\<rparr>"
              "\<lparr>timer_id = ''1'', timer_name = ''Work'', timer_duration = Fin 1500\<rparr>"]
        resetTimer_effect
          [of "initial_state\<lparr>isActive := True, timeLeft := Fin 7, activeTimerId := ''2''\<rparr>"]
  by (simp add: initial_state_def)

section \<open>Editing a timer\<close>

text \<open>
  Claim C4. With a draft in place, \<^verbatim>\<open>saveEdit\<close> writes the draft's name and duration onto
  every timer whose id is the draft's id and leaves the other timers, and the order, as
  they were. When \<^verbatim>\<open>activeTimerId\<close> is the draft's id it also sets \<^verbatim>\<open>timeLeft\<close> to the
  new duration at once, and otherwise leaves \<^verbatim>\<open>timeLeft\<close> alone; \<^verbatim>\<open>isActive\<close> is not
  changed, so a running countdown keeps running from the new value. The draft is cleared
  and \<^verbatim>\<open>isEditing\<close> becomes false. For a draft duration other than zero the effect that
  follows adds nothing.
\<close>

theorem saveEdit_commits_draft:
  "editingTimer s = Some e \<Longrightarrow>
     length (timers (saveEdit s)) = length (timers s)
     \<and> (i < length (timers s) \<longrightarrow>
          timers (saveEdit s) ! i =
            (if timer_id (timers s ! i) = edit_id e
             then \<lparr>timer_id = timer_id (timers s ! i), timer_name = edit_name e,
                   timer_duration = edit_duration e\<rparr>
             else timers s ! i))
     \<and> (activeTimerId s = edit_id e \<longrightarrow> timeLeft (saveEdit s) = edit_duration e)
     \<and> (activeTimerId s \<noteq> edit_id e \<longrightarrow> timeLeft (saveEdit s) = timeLeft s)
     \<and> isActive (saveEdit s) = isActive s
     \<and> editingTimer (saveEdit s) = None
     \<and> isEditing (saveEdit s) = False
     \<and> activeTimerId (saveEdit s) = activeTimerId s
     \<and> completedPomodoros (saveEdit s) = completedPomodoros s
     \<and> (edit_duration e \<noteq> Fin 0 \<longrightarrow> settle a s (saveEdit s) = Inr (saveEdit s))"
proof -
  assume d: "editingTimer s = Some e"
  have quiet: "edit_duration e \<noteq> Fin 0 \<longrightarrow> settle a s (saveEdit s) = Inr (saveEdit s)"
  proof (cases "activeTimerId s = edit_id e")
    case True
    with d have "timeLeft (saveEdit s) = edit_duration e"
      by (simp add: saveEdit_def Let_def)
    then show ?thesis by (simp add: settle_quiet)
  next
    case False
    with d have "deps (saveEdit s) = deps s"
      by (simp add: saveEdit_def deps_def Let_def)
    then show ?thesis by (simp add: settle_same)
  qed
  from d have "length (timers (saveEdit s)) = length (timers s)
     \<and> (i < length (timers s) \<longrightarrow>
          timers (saveEdit s) ! i =
            (if timer_id (timers s ! i) = edit_id e
             then \<lparr>timer_id = timer_id (timers s ! i), timer_name = edit_name e,
                   timer_duration = edit_duration e\<rparr>
             else timers s ! i))"
    by (simp add: saveEdit_def Let_def)
  moreover from d have "(activeTimerId s = edit_id e \<longrightarrow> timeLeft (saveEdit s) = edit_duration e)
     \<and> (activeTimerId s \<noteq> edit_id e \<longrightarrow> timeLeft (saveEdit s) = timeLeft s)
     \<and> isActive (saveEdit s) = isActive s
     \<and> editingTimer (saveEdit s) = None
     \<and> isEditing (saveEdit s) = False
     \<and> activeTimerId (saveEdit s) = activeTimerId s
     \<and> completedPomodoros (saveEdit s) = completedPomodoros s"
    by (simp add: saveEdit_def Let_def)
  ultimately show ?thesis using quiet by blast
qed

theorem saveEdit_commits_draft_witness:
  "editingTimer (initial_state\<lparr>isActive := True, timeLeft := Fin 7, isEditing := True,
       editingTimer := Some \<lparr>edit_id = ''1'', edit_name = ''Deep'', edit_duration = Fin 600\<rparr>\<rparr>)
     = Some \<lparr>edit_id = ''1'', edit_name = ''Deep'', edit_duration = Fin 600\<rparr>
   \<and> (0::nat) < length (timers initial_state)
   \<and> activeTimerId initial_state = ''1''
   \<and> timers (saveEdit (initial_state\<lparr>isActive := True, timeLeft := Fin 7, isEditing := True,
       editingTimer := Some \<lparr>edit_id = ''1'', edit_name = ''Deep'', edit_duration = Fin 600\<rparr>\<rparr>)) ! 0
     = \<lparr>timer_id = ''1'', timer_name = ''Deep'', timer_duration = Fin 600\<rparr>
   \<and> timeLeft (saveEdit (initial_state\<lparr>isActive := True, timeLeft := Fin 7, isEditing := True,
       editingTimer := Some \<lparr>edit_id = ''1'', edit_name = ''Deep'', edit_duration = Fin 600\<rparr>\<rparr>)) = Fin 600
   \<and> isActive (saveEdit (initial_state\<lparr>isActive := True, timeLeft := Fin 7, isEditing := True,
       editingTimer := Some \<lparr>edit_id = ''1'', edit_name = ''Deep'', edit_duration = Fin 600\<rparr>\<rparr>)) = True"
  using saveEdit_commits_draft
          [of "initial_state\<lparr>isActive := True, timeLeft := Fin 7, isEditing := True,
                 editingTimer := Some \<lparr>edit_id = ''1'', edit_name = ''Deep'', edit_duration = Fin 600\<rparr>\<rparr>"
              "\<lparr>edit_id = ''1'', edit_name = ''Deep'', edit_duration = Fin 600\<rparr>" 0 AudioPlays]
  by (simp add: initial_state_def)

subsection \<open>What \<^verbatim>\<open>parseInt\<close> makes of the duration field\<close>

lemma is_digit_iff: "is_digit c \<longleftrightarrow> is_digit_unit (of_char c)"
proof
  assume "is_digit c"
  then show "is_digit_unit (of_char c)"
    unfolding is_digit_def is_digit_unit_def by (simp; elim disjE; simp)
next
  assume "is_digit_unit (of_char c)"
  then have "(of_char c :: nat) \<in> set [48..<58]"
    unfolding is_digit_unit_def by (simp only: set_upt atLeastLessThan_iff) arith
  then have "\<exists>k \<in> set [48..<58]. c = char_of (k::nat)"
    by (intro bexI [of _ "of_char c"]) simp_all
  then have "c \<in> set ''0123456789''"
    by (simp add: upt_rec) (elim disjE; simp add: char_of_eq_iff)
  then show "is_digit c" by (simp add: is_digit_def)
qed

lemma radix_digit_10:
  "radix_digit 10 u = (if is_digit_unit u then Some (u - 48) else None)"
  by (auto simp: radix_digit_def Let_def is_digit_unit_def)

lemma parse_digits_stop:
  "rest = [] \<or> \<not> is_digit_unit (hd rest) \<Longrightarrow> parse_digits 10 rest acc = acc"
  by (cases rest) (simp_all add: radix_digit_10)

lemma parse_digits_numeral:
  "list_all is_digit_unit ds \<Longrightarrow> ds \<noteq> [] \<Longrightarrow> rest = [] \<or> \<not> is_digit_unit (hd rest) \<Longrightarrow>
   parse_digits 10 (ds @ rest) acc =
     Some (foldl (\<lambda>v u. 10 * v + (u - 48)) (case acc of None \<Rightarrow> 0 | Some n \<Rightarrow> n) ds)"
proof (induction ds arbitrary: acc)
  case Nil
  then show ?case by simp
next
  case (Cons c cs)
  show ?case
  proof (cases "cs = []")
    case True
    with Cons.prems show ?thesis
      by (simp add: radix_digit_10 parse_digits_stop)
  next
    case False
    with Cons show ?thesis
      by (simp add: radix_digit_10)
  qed
qed

lemma units_digits_all: "list_all is_digit_unit (units (digits n))"
  using digits_all_digit [of n] by (simp add: units_def list_all_iff is_digit_iff)

lemma units_digits_value: "foldl (\<lambda>v u. 10 * v + (u - 48)) 0 (units (digits n)) = n"
proof -
  have "foldl (\<lambda>v u. 10 * v + (u - 48)) 0 (units s) = decimal_value s" for s
    by (simp add: units_def foldl_map decimal_value_def digit_value_def)
  then show ?thesis by (simp add: decimal_value_digits)
qed

lemma units_digits_Cons:
  "0 < n \<Longrightarrow> \<exists>u us. units (digits n) = u # us \<and> is_digit_unit u \<and> u \<noteq> 48"
proof -
  assume n: "0 < n"
  obtain c cs where ds: "digits n = c # cs"
    using length_digits_pos [of n] by (cases "digits n") auto
  have "is_digit c" using digits_all_digit [of n] ds by simp
  then have d: "is_digit_unit (of_char c)" by (simp add: is_digit_iff)
  have "c \<noteq> CHR ''0''" using hd_digits_nonzero [OF n] ds by simp
  then have "(of_char c :: nat) \<noteq> of_char CHR ''0''" by (simp only: of_char_eq_iff) simp
  then have "(of_char c :: nat) \<noteq> 48" by simp
  with d ds show ?thesis by (simp add: units_def)
qed

lemma digit_unit_not_space: "is_digit_unit u \<Longrightarrow> \<not> is_space u"
  by (auto simp: is_digit_unit_def is_space_def)


lemma dropWhile_no_space: "t = [] \<or> \<not> is_space (hd t) \<Longrightarrow> dropWhile is_space t = t"
  by (cases t) simp_all


lemma parseInt_unsigned_decimal:
  assumes "is_digit_unit u" and "u \<noteq> 48"
  shows "parseInt (u # us) =
           (case parse_digits 10 (u # us) None of None \<Rightarrow> NaN | Some n \<Rightarrow> fl (int n))"
proof -
  have sp: "\<not> is_space u" using assms(1) by (rule digit_unit_not_space)
  have sg: "u \<noteq> 45" "u \<noteq> 43" using assms(1) by (auto simp: is_digit_unit_def)
  show ?thesis
  proof (cases us)
    case Nil
    with assms sp sg show ?thesis
      by (simp add: parseInt_def strip_sign_def strip_radix_def split: option.splits)
  next
    case (Cons x xs)
    with assms sp sg show ?thesis
      by (simp add: parseInt_def strip_sign_def strip_radix_def split: option.splits)
  qed
qed

lemma parseInt_signed:
  "parseInt (45 # t) =
     (case parse_digits (fst (strip_radix t)) (snd (strip_radix t)) None of
        None \<Rightarrow> NaN | Some n \<Rightarrow> fl (- int n))"
  "parseInt (43 # t) =
     (case parse_digits (fst (strip_radix t)) (snd (strip_radix t)) None of
        None \<Rightarrow> NaN | Some n \<Rightarrow> fl (int n))"
  by (simp_all add: parseInt_def strip_sign_def is_space_def split: prod.splits option.splits)

lemma strip_radix_decimal:
  "t = [] \<or> hd t \<noteq> 48 \<Longrightarrow> strip_radix t = (10, t)"
  by (cases t) (auto simp: strip_radix_def split: list.splits)

lemma parse_numeral_value:
  assumes "0 < n" and "rest = [] \<or> \<not> is_digit_unit (hd rest)"
  shows "parse_digits 10 (units (digits n) @ rest) None = Some n"
proof -
  have ne: "units (digits n) \<noteq> []" using units_digits_Cons [OF assms(1)] by auto
  show ?thesis
    using parse_digits_numeral [OF units_digits_all ne assms(2), where acc = None]
    by (simp add: units_digits_value)
qed

lemma parseInt_numeral:
  assumes "0 < n" and "rest = [] \<or> \<not> is_digit_unit (hd rest)"
  shows "parseInt (units (digits n) @ rest) = fl (int n)"
    and "parseInt (43 # units (digits n) @ rest) = fl (int n)"
    and "parseInt (45 # units (digits n) @ rest) = fl (- int n)"
proof -
  obtain u us where ds: "units (digits n) = u # us" and d: "is_digit_unit u" and nz: "u \<noteq> 48"
    using units_digits_Cons [OF assms(1)] by blast
  have v: "parse_digits 10 (units (digits n) @ rest) None = Some n"
    using assms by (rule parse_numeral_value)
  have "parseInt (u # (us @ rest)) =
      (case parse_digits 10 (u # (us @ rest)) None of None \<Rightarrow> NaN | Some n \<Rightarrow> fl (int n))"
    using d nz by (rule parseInt_unsigned_decimal)
  then show "parseInt (units (digits n) @ rest) = fl (int n)"
    using v by (simp add: ds)
  have r: "strip_radix (units (digits n) @ rest) = (10, units (digits n) @ rest)"
    by (rule strip_radix_decimal) (simp add: ds nz)
  show "parseInt (43 # units (digits n) @ rest) = fl (int n)"
    by (simp add: parseInt_signed r v)
  show "parseInt (45 # units (digits n) @ rest) = fl (- int n)"
    by (simp add: parseInt_signed r v)
qed










lemma handleDurationChange_accept:
  "editingTimer s = Some e \<Longrightarrow> num_mul (parseInt t) 60 = d \<Longrightarrow> num_gt0 d \<Longrightarrow>
   handleDurationChange t s = s\<lparr>editingTimer := Some (e\<lparr>edit_duration := d\<rparr>)\<rparr>"
  by (cases d) (auto simp: handleDurationChange_def Let_def)

lemma handleDurationChange_numeral:
  assumes "editingTimer s = Some e" and "0 < n" and "int n * 60 \<le> 2 ^ 53"
    and "parseInt t = fl (int n)"
  shows "handleDurationChange t s = s\<lparr>editingTimer := Some (e\<lparr>edit_duration := Fin (int n * 60)\<rparr>)\<rparr>"
proof -
  have "\<bar>int n\<bar> \<le> 2 ^ 53" using assms(3) by simp
  then have "parseInt t = Fin (int n)" using assms(4) by (simp add: fl_exact)
  moreover have "\<bar>int n * 60\<bar> \<le> 2 ^ 53" using assms(3) by simp
  ultimately have "num_mul (parseInt t) 60 = Fin (int n * 60)" by (simp add: num_mul_exact)
  then show ?thesis using assms(1,2) by (intro handleDurationChange_accept) simp_all
qed




section \<open>Completion and the sound\<close>

text \<open>
  The first version of the component completes with the same result whether the audio
  calls throw or not; in the second version an exception of the audio calls leaves
  \<^verbatim>\<open>handleTimerComplete\<close> before any of its updates.
\<close>

lemma handleTimerComplete_ignores_audio:
  "handleTimerComplete AudioThrows s = handleTimerComplete AudioPlays s
   \<and> handleTimerComplete a s =
       Inr (resetTimer (s\<lparr>isActive := False, completedPomodoros := num_add (completedPomodoros s) 1\<rparr>))"
  by (simp add: handleTimerComplete_Inr)

lemma handleTimerComplete_single_throws:
  "handleTimerComplete_single AudioThrows s = Inl AudioError"
  by (simp add: handleTimerComplete_single_def playNotificationSound_single_def audio_calls_def)

text \<open>
  Claim C8. When the audio calls throw during completion, the error is caught and the
  bookkeeping still happens, with the same result as when the sound plays: \<^verbatim>\<open>isActive\<close>
  false, \<^verbatim>\<open>completedPomodoros\<close> one more, \<^verbatim>\<open>timeLeft\<close> the active timer's duration.
  The version with \<^verbatim>\<open>try\<close>/\<^verbatim>\<open>catch\<close> does so. The single-tone version, run at a
  countdown that reached zero with audio that throws, ends in the exception and makes none
  of the three updates.
\<close>

theorem single_tone_completion_aborts:
  "handleTimerComplete_single AudioThrows (initial_state\<lparr>isActive := True, timeLeft := Fin 0\<rparr>)
     = Inl AudioError
   \<and> handleTimerComplete_single AudioPlays (initial_state\<lparr>isActive := True, timeLeft := Fin 0\<rparr>)
     = Inr (initial_state\<lparr>completedPomodoros := Fin 1\<rparr>)
   \<and> handleTimerComplete AudioThrows (initial_state\<lparr>isActive := True, timeLeft := Fin 0\<rparr>)
     = Inr (initial_state\<lparr>completedPomodoros := Fin 1\<rparr>)
   \<and> handleTimerComplete AudioPlays (initial_state\<lparr>isActive := True, timeLeft := Fin 0\<rparr>)
     = Inr (initial_state\<lparr>completedPomodoros := Fin 1\<rparr>)"
  by (simp add: handleTimerComplete_single_def playNotificationSound_single_def audio_calls_def
                handleTimerComplete_def playNotificationSound_def resetTimer_def initial_state_def
                num_add_exact)

section \<open>Counting down\<close>

text \<open>
  Steps of the machine in the states where the effect has nothing to add, and runs of ticks.
\<close>

lemma find_present:
  "a \<in> set (map timer_id ts) \<Longrightarrow>
   \<exists>t. find (\<lambda>t. timer_id t = a) ts = Some t \<and> t \<in> set ts \<and> timer_id t = a"
  by (induction ts) auto

lemma step_quiet:
  "enabled e s \<Longrightarrow> timeLeft (handler e s) \<noteq> Fin 0 \<Longrightarrow> step a e s = Inr (handler e s)"
  by (simp add: step_def settle_quiet)

lemma step_disabled: "\<not> enabled e s \<Longrightarrow> step a e s = Inr s"
  by (simp add: step_def)

lemma step_tick_down:
  assumes "isActive s" and "timeLeft s = Fin i" and "1 < i" and "i \<le> 2 ^ 53"
  shows "step a Tick s = Inr (s\<lparr>timeLeft := Fin (i - 1)\<rparr>)"
proof -
  have "num_add (Fin i) (- 1) = Fin (i + - 1)"
    using assms(3,4) by (intro num_add_exact) simp
  then have "tick s = s\<lparr>timeLeft := Fin (i - 1)\<rparr>"
    using assms(2) by (simp add: tick_def)
  then show ?thesis
    using assms by (simp add: step_def intervalArmed_def settle_quiet)
qed

lemma step_tick_complete:
  assumes "isActive s" and "timeLeft s = Fin 1"
    and "find (\<lambda>t. timer_id t = activeTimerId s) (timers s) = Some t"
    and "timer_duration t \<noteq> Fin 0"
  shows "step a Tick s =
           Inr (s\<lparr>isActive := False, completedPomodoros := num_add (completedPomodoros s) 1,
                  timeLeft := timer_duration t\<rparr>)"
proof -
  have "num_add (Fin 1) (- 1) = Fin (1 + - 1)" by (intro num_add_exact) simp
  then have t: "tick s = s\<lparr>timeLeft := Fin 0\<rparr>"
    using assms(2) by (simp add: tick_def)
  have "settle a s (tick s) =
          Inr ((tick s)\<lparr>isActive := False,
                        completedPomodoros := num_add (completedPomodoros (tick s)) 1,
                        timeLeft := timer_duration t\<rparr>)"
    using assms by (intro settle_complete) (simp_all add: t deps_def)
  then show ?thesis
    using assms(1,2) by (simp add: step_def intervalArmed_def t)
qed

lemma run_append:
  "run a (xs @ ys) s = (case run a xs s of Inl x \<Rightarrow> Inl x | Inr s' \<Rightarrow> run a ys s')"
  by (induction xs arbitrary: s) (auto split: sum.splits)

lemma run_ticks_down:
  "isActive s \<Longrightarrow> timeLeft s = Fin i \<Longrightarrow> int n < i \<Longrightarrow> i \<le> 2 ^ 53 \<Longrightarrow>
   run a (replicate n Tick) s = Inr (s\<lparr>timeLeft := Fin (i - int n)\<rparr>)"
proof (induction n arbitrary: s i)
  case 0
  then show ?case by simp
next
  case (Suc n)
  then have "step a Tick s = Inr (s\<lparr>timeLeft := Fin (i - 1)\<rparr>)"
    by (intro step_tick_down) simp_all
  moreover have "run a (replicate n Tick) (s\<lparr>timeLeft := Fin (i - 1)\<rparr>)
                   = Inr (s\<lparr>timeLeft := Fin (i - 1)\<rparr>\<lparr>timeLeft := Fin (i - 1 - int n)\<rparr>)"
    using Suc.prems by (intro Suc.IH) simp_all
  ultimately show ?case by (simp add: algebra_simps)
qed

lemma run_ticks_paused:
  "\<not> isActive s \<Longrightarrow> run a (replicate n Tick) s = Inr s"
  by (induction n) (simp_all add: step_def intervalArmed_def)

lemma run_stuck: "step a e s = Inr s \<Longrightarrow> run a (replicate n e) s = Inr s"
  by (induction n) simp_all

lemma run_countdown:
  assumes "isActive s" and "timeLeft s = Fin (int D)" and "0 < D" and "int D \<le> 2 ^ 53"
    and "find (\<lambda>t. timer_id t = activeTimerId s) (timers s) = Some t"
    and "timer_duration t \<noteq> Fin 0"
  shows "run a (replicate D Tick) s =
           Inr (s\<lparr>isActive := False, completedPomodoros := num_add (completedPomodoros s) 1,
                  timeLeft := timer_duration t\<rparr>)"
proof -
  obtain n where D: "D = n + 1" using assms(3) by (cases D) auto
  let ?m = "s\<lparr>timeLeft := Fin (int D - int n)\<rparr>"
  have "run a (replicate n Tick) s = Inr ?m"
    using assms(1,2,4) D by (intro run_ticks_down) simp_all
  moreover have "step a Tick ?m =
      Inr (?m\<lparr>isActive := False, completedPomodoros := num_add (completedPomodoros ?m) 1,
               timeLeft := timer_duration t\<rparr>)"
    using assms D by (intro step_tick_complete) simp_all
  ultimately have "run a (replicate n Tick @ [Tick]) s =
      Inr (?m\<lparr>isActive := False, completedPomodoros := num_add (completedPomodoros ?m) 1,
               timeLeft := timer_duration t\<rparr>)"
    by (simp add: run_append)
  moreover have "replicate D Tick = replicate n Tick @ [Tick]"
    using D by (simp add: replicate_append_same)
  ultimately show ?thesis by simp
qed

lemma find_map_same_id:
  "(\<And>x. timer_id (f x) = timer_id x) \<Longrightarrow>
   find (\<lambda>t. timer_id t = a) (map f ts) = map_option f (find (\<lambda>t. timer_id t = a) ts)"
  by (induction ts) auto

lemma find_Some_member:
  "find (\<lambda>t. timer_id t = a) ts = Some t \<Longrightarrow> t \<in> set ts \<and> timer_id t = a"
  by (induction ts) (auto split: if_splits)

lemma run_start:
  assumes "\<not> isActive s" and "\<not> editView s" and "timeLeft s \<noteq> Fin 0"
  shows "run a (ToggleTimer # es) s = run a es (s\<lparr>isActive := True\<rparr>)"
  using assms by (simp add: step_quiet toggleTimer_def)

lemma run_edit_active:
  assumes "\<not> editView s" and "timeLeft s \<noteq> Fin 0"
    and "find (\<lambda>t. timer_id t = activeTimerId s) (timers s) = Some t"
    and "0 < n" and "int n * 60 \<le> 2 ^ 53"
  shows "run a ([StartEditing t, DurationChange (units (digits n)), SaveEdit] @ es) s =
           run a es (s\<lparr>timers := map (\<lambda>timer. if timer_id timer = timer_id t
                                          then timer\<lparr>timer_name := timer_name t,
                                                     timer_duration := Fin (int n * 60)\<rparr>
                                          else timer) (timers s),
                        timeLeft := Fin (int n * 60), isEditing := False, editingTimer := None\<rparr>)"
proof -
  have t: "t \<in> set (timers s)" "timer_id t = activeTimerId s"
    using find_Some_member [OF assms(3)] by simp_all
  let ?d = "\<lparr>edit_id = timer_id t, edit_name = timer_name t, edit_duration = timer_duration t\<rparr>"
  let ?s1 = "s\<lparr>editingTimer := Some ?d, isEditing := True\<rparr>"
  let ?s2 = "?s1\<lparr>editingTimer := Some (?d\<lparr>edit_duration := Fin (int n * 60)\<rparr>)\<rparr>"
  have p: "parseInt (units (digits n)) = fl (int n)"
    using parseInt_numeral(1) [OF assms(4), of "[]"] by simp
  have h: "handleDurationChange (units (digits n)) ?s1 = ?s2"
    using assms(4,5) p by (intro handleDurationChange_numeral) simp_all
  have nz: "int n * 60 \<noteq> 0" using assms(4) by simp
  have 1: "step a (StartEditing t) s = Inr ?s1"
    using assms(1,2) t by (simp add: step_quiet startEditing_def)
  have 2: "step a (DurationChange (units (digits n))) ?s1 = Inr ?s2"
    using assms(2) by (simp add: step_quiet editView_def h)
  have 3: "step a SaveEdit ?s2 =
      Inr (s\<lparr>timers := map (\<lambda>timer. if timer_id timer = timer_id t
                                          then timer\<lparr>timer_name := timer_name t,
                                                     timer_duration := Fin (int n * 60)\<rparr>
                                          else timer) (timers s),
                        timeLeft := Fin (int n * 60), isEditing := False, editingTimer := None\<rparr>)"
    using nz t(2) by (simp add: step_quiet editView_def saveEdit_def)
  show ?thesis by (simp only: append.simps run.simps 1 2 3 sum.case)
qed

text \<open>
  A state the page can be brought to: 150119987579017 minutes are committed for the
  active timer, which makes the countdown 9007199254741020 seconds, above \<open>2 ^ 53\<close>.
  There the difference with 1 lies halfway between two numbers and is rounded back.
\<close>

lemma reachable_above_2_53:
  "reachable (initial_state\<lparr>timers := [\<lparr>timer_id = ''1'', timer_name = ''Work'',
                                          timer_duration = Fin 9007199254741020\<rparr>],
                             timeLeft := Fin 9007199254741020\<rparr>)"
proof -
  let ?w = "\<lparr>timer_id = ''1'', timer_name = ''Work'', timer_duration = Fin 1500\<rparr>"
  let ?d = "\<lparr>edit_id = ''1'', edit_name = ''Work'', edit_duration = Fin 1500\<rparr>"
  let ?s1 = "initial_state\<lparr>isEditing := True, editingTimer := Some ?d\<rparr>"
  let ?s2 = "initial_state\<lparr>isEditing := True,
               editingTimer := Some \<lparr>edit_id = ''1'', edit_name = ''Work'',
                                     edit_duration = Fin 9007199254741020\<rparr>\<rparr>"
  let ?big = "initial_state\<lparr>timers := [\<lparr>timer_id = ''1'', timer_name = ''Work'',
                                          timer_duration = Fin 9007199254741020\<rparr>],
                             timeLeft := Fin 9007199254741020\<rparr>"
  have e1: "enabled (StartEditing ?w) initial_state"
    by (simp add: editView_def initial_state_def)
  have "step AudioPlays (StartEditing ?w) initial_state = Inr ?s1"
    using e1 by (simp add: step_quiet startEditing_def initial_state_def)
  with e1 have r1: "reachable ?s1"
    using reachable.event [OF reachable.mount, of "StartEditing ?w" AudioPlays ?s1] by simp
  have p: "parseInt (units ''150119987579017'') = Fin 150119987579017"
    by (simp add: parseInt_def units_def is_space_def strip_sign_def strip_radix_def radix_digit_def
          fl_exact)
  have m: "num_mul (Fin 150119987579017) 60 = Fin 9007199254741020"
    by (simp add: num_mul_def fl_9007199254741020)
  have "handleDurationChange (units ''150119987579017'') ?s1
          = ?s1\<lparr>editingTimer := Some (?d\<lparr>edit_duration := Fin 9007199254741020\<rparr>)\<rparr>"
    by (rule handleDurationChange_accept) (simp_all add: p m)
  then have h: "handleDurationChange (units ''150119987579017'') ?s1 = ?s2"
    by simp
  have e2: "enabled (DurationChange (units ''150119987579017'')) ?s1"
    by (simp add: editView_def)
  have tl: "timeLeft initial_state \<noteq> Fin 0" by (simp add: initial_state_def)
  have "step AudioPlays (DurationChange (units ''150119987579017'')) ?s1
          = Inr (handler (DurationChange (units ''150119987579017'')) ?s1)"
    using e2 by (rule step_quiet) (simp add: h tl)
  then have "step AudioPlays (DurationChange (units ''150119987579017'')) ?s1 = Inr ?s2"
    by (simp add: h)
  with e2 r1 have r2: "reachable ?s2"
    using reachable.event [of ?s1 "DurationChange (units ''150119987579017'')" AudioPlays ?s2]
    by blast
  have e3: "enabled SaveEdit ?s2" by (simp add: editView_def)
  have sv: "saveEdit ?s2 = ?big" by (simp add: saveEdit_def initial_state_def)
  have "step AudioPlays SaveEdit ?s2 = Inr (handler SaveEdit ?s2)"
    using e3 by (rule step_quiet) (simp add: saveEdit_def initial_state_def)
  then have "step AudioPlays SaveEdit ?s2 = Inr ?big"
    by (simp add: sv)
  with e3 r2 show ?thesis
    using reachable.event [of ?s2 SaveEdit AudioPlays ?big] by blast
qed

lemma tick_above_2_53:
  "timeLeft s = Fin 9007199254741020 \<Longrightarrow> tick s = s"
  by (simp add: tick_def num_add_def fl_above_2_53)

text \<open>
  Claim C1 says that for every duration \<open>D\<close>, starting and letting \<open>D\<close> ticks pass
  completes exactly once. With the timer of 9007199254741020 seconds selected and the
  countdown at that value, no tick changes the countdown: after that many ticks the
  component is still running and nothing has completed.
\<close>

theorem countdown_completes_once_counterexample:
  "reachable (initial_state\<lparr>timers := [\<lparr>timer_id = ''1'', timer_name = ''Work'',
                                          timer_duration = Fin 9007199254741020\<rparr>],
                             timeLeft := Fin 9007199254741020\<rparr>)
   \<and> \<not> isActive (initial_state\<lparr>timers := [\<lparr>timer_id = ''1'', timer_name = ''Work'',
                                          timer_duration = Fin 9007199254741020\<rparr>],
                             timeLeft := Fin 9007199254741020\<rparr>)
   \<and> run AudioPlays (ToggleTimer # replicate 9007199254741020 Tick)
        (initial_state\<lparr>timers := [\<lparr>timer_id = ''1'', timer_name = ''Work'',
                                          timer_duration = Fin 9007199254741020\<rparr>],
                             timeLeft := Fin 9007199254741020\<rparr>)
       = Inr (initial_state\<lparr>timers := [\<lparr>timer_id = ''1'', timer_name = ''Work'',
                                          timer_duration = Fin 9007199254741020\<rparr>],
                             timeLeft := Fin 9007199254741020, isActive := True\<rparr>)"
proof -
  let ?big = "initial_state\<lparr>timers := [\<lparr>timer_id = ''1'', timer_name = ''Work'',
                                          timer_duration = Fin 9007199254741020\<rparr>],
                             timeLeft := Fin 9007199254741020\<rparr>"
  let ?run = "?big\<lparr>isActive := True\<rparr>"
  have n: "\<not> isActive ?big" by (simp add: initial_state_def)
  have "\<not> editView ?big" by (simp add: editView_def initial_state_def)
  then have s: "run AudioPlays (ToggleTimer # es) ?big = run AudioPlays es ?run" for es
    using n by (intro run_start) simp_all
  have "tick ?run = ?run" by (rule tick_above_2_53) simp
  then have "step AudioPlays Tick ?run = Inr ?run"
    by (simp add: step_def settle_same)
  then have "run AudioPlays (replicate 9007199254741020 Tick) ?run = Inr ?run"
    by (rule run_stuck)
  then have "run AudioPlays (ToggleTimer # replicate 9007199254741020 Tick) ?big = Inr ?run"
    by (simp only: s)
  then show ?thesis
    using reachable_above_2_53 n by simp
qed

text \<open>
  Claim C1, amended. Take a state that is not running, shows the timer view, has \<open>D\<close>
  seconds left with \<open>0 < D \<le> 2 ^ 53\<close>, has completed fewer than \<open>2 ^ 53\<close> countdowns, and
  whose active id resolves to a timer \<open>t\<close> (in the default state, for a timer of duration
  \<open>D\<close>, that timer is selected and \<open>D\<close> is its duration). Starting and letting \<open>D\<close>
  ticks pass completes exactly once: fewer than \<open>D\<close> ticks only count down and leave
  \<^verbatim>\<open>completedPomodoros\<close> alone; the \<open>D\<close>-th tick gives \<^verbatim>\<open>isActive\<close> false,
  \<^verbatim>\<open>completedPomodoros\<close> one more, and \<^verbatim>\<open>timeLeft\<close> the duration stored for \<open>t\<close> at
  that moment; further ticks change nothing, so the same zero is never completed twice.
  An edit of the active timer to \<open>n\<close> minutes, \<open>n * 60 \<le> 2 ^ 53\<close>, committed during the
  countdown is honoured: the countdown restarts from the edited duration, and on
  completion \<^verbatim>\<open>timeLeft\<close> is the edited duration.
\<close>

theorem countdown_completes_once:
  assumes "\<not> isActive s" and "\<not> editView s"
    and "timeLeft s = Fin (int D)" and "0 < D" and "int D \<le> 2 ^ 53"
    and "completedPomodoros s = Fin c" and "0 \<le> c" and "c < 2 ^ 53"
    and "find (\<lambda>t. timer_id t = activeTimerId s) (timers s) = Some t"
    and "timer_duration t \<noteq> Fin 0"
  shows "(k < D \<longrightarrow>
            run a (ToggleTimer # replicate k Tick) s
              = Inr (s\<lparr>isActive := True, timeLeft := Fin (int D - int k)\<rparr>))
         \<and> run a (ToggleTimer # replicate D Tick) s
              = Inr (s\<lparr>isActive := False, completedPomodoros := Fin (c + 1),
                       timeLeft := timer_duration t\<rparr>)
         \<and> run a (ToggleTimer # replicate (D + j) Tick) s
              = Inr (s\<lparr>isActive := False, completedPomodoros := Fin (c + 1),
                       timeLeft := timer_duration t\<rparr>)
         \<and> (k < D \<and> 0 < n \<and> int n * 60 \<le> 2 ^ 53 \<longrightarrow>
              run a (ToggleTimer # replicate k Tick
                       @ [StartEditing t, DurationChange (units (digits n)), SaveEdit]
                       @ replicate (n * 60) Tick) s
                = Inr (s\<lparr>timers := map (\<lambda>timer. if timer_id timer = timer_id t
                                          then timer\<lparr>timer_name := timer_name t,
                                                     timer_duration := Fin (int n * 60)\<rparr>
                                          else timer) (timers s),
                         isActive := False, completedPomodoros := Fin (c + 1),
                         timeLeft := Fin (int n * 60), isEditing := False, editingTimer := None\<rparr>))"
proof -
  let ?r = "s\<lparr>isActive := True\<rparr>"
  let ?done = "s\<lparr>isActive := False, completedPomodoros := Fin (c + 1),
                 timeLeft := timer_duration t\<rparr>"
  have nz: "timeLeft s \<noteq> Fin 0" using assms(3,4) by simp
  have inc: "num_add (Fin c) 1 = Fin (c + 1)"
    using assms(7,8) by (intro num_add_exact) simp
  have start: "run a (ToggleTimer # es) s = run a es ?r" for es
    using assms(1,2) nz by (rule run_start)
  have down: "k < D \<longrightarrow> run a (replicate k Tick) ?r = Inr (?r\<lparr>timeLeft := Fin (int D - int k)\<rparr>)" for k
    using run_ticks_down [of ?r "int D" k a] assms(3,5) by simp
  have full: "run a (replicate D Tick) ?r = Inr ?done"
    using run_countdown [of ?r D t a] assms(3-6,9,10) by (simp add: inc)
  have more: "run a (replicate (D + j) Tick) ?r = Inr ?done"
    using full run_ticks_paused [of ?done a j]
    by (simp add: replicate_add run_append)
  have edit: "k < D \<and> 0 < n \<and> int n * 60 \<le> 2 ^ 53 \<longrightarrow>
              run a (replicate k Tick @ [StartEditing t, DurationChange (units (digits n)), SaveEdit]
                       @ replicate (n * 60) Tick) ?r
                = Inr (s\<lparr>timers := map (\<lambda>timer. if timer_id timer = timer_id t
                                          then timer\<lparr>timer_name := timer_name t,
                                                     timer_duration := Fin (int n * 60)\<rparr>
                                          else timer) (timers s),
                         isActive := False, completedPomodoros := Fin (c + 1),
                         timeLeft := Fin (int n * 60), isEditing := False, editingTimer := None\<rparr>)"
  proof (intro impI, elim conjE)
    assume k: "k < D" and n: "0 < n" and b: "int n * 60 \<le> 2 ^ 53"
    let ?mid = "?r\<lparr>timeLeft := Fin (int D - int k)\<rparr>"
    let ?f = "\<lambda>timer. if timer_id timer = timer_id t
                       then timer\<lparr>timer_name := timer_name t, timer_duration := Fin (int n * 60)\<rparr>
                       else timer"
    let ?e = "?mid\<lparr>timers := map ?f (timers ?mid), timeLeft := Fin (int n * 60),
                    isEditing := False, editingTimer := None\<rparr>"
    have a1: "run a (replicate k Tick) ?r = Inr ?mid" using down k by blast
    have a2: "run a ([StartEditing t, DurationChange (units (digits n)), SaveEdit] @ es) ?mid
                = run a es ?e" for es
      using assms(2,9) k n b by (intro run_edit_active) (simp_all add: editView_def)
    have "find (\<lambda>x. timer_id x = activeTimerId ?e) (timers ?e) = Some (?f t)"
      using assms(9) by (simp add: find_map_same_id)
    moreover have "timer_duration (?f t) = Fin (int n * 60)" by simp
    moreover have "Fin (int n * 60) \<noteq> Fin 0" using n by simp
    ultimately have a3: "run a (replicate (n * 60) Tick) ?e =
        Inr (?e\<lparr>isActive := False, completedPomodoros := Fin (c + 1),
                 timeLeft := Fin (int n * 60)\<rparr>)"
      using run_countdown [of ?e "n * 60" "?f t" a] n b assms(6) by (simp add: inc)
    show "run a (replicate k Tick @ [StartEditing t, DurationChange (units (digits n)), SaveEdit]
                       @ replicate (n * 60) Tick) ?r
                = Inr (s\<lparr>timers := map ?f (timers s),
                         isActive := False, completedPomodoros := Fin (c + 1),
                         timeLeft := Fin (int n * 60), isEditing := False, editingTimer := None\<rparr>)"
      by (simp only: run_append [of a "replicate k Tick"] a1 sum.case a2 a3) simp
  qed
  show ?thesis
    unfolding start using down [of k] full more edit by blast
qed

theorem countdown_completes_once_witness:
  "\<not> isActive initial_state \<and> \<not> editView initial_state
   \<and> timeLeft initial_state = Fin (int 1500) \<and> (0::nat) < 1500 \<and> int 1500 \<le> 2 ^ 53
   \<and> completedPomodoros initial_state = Fin 0 \<and> (0::int) \<le> 0 \<and> (0::int) < 2 ^ 53
   \<and> find (\<lambda>t. timer_id t = activeTimerId initial_state) (timers initial_state)
        = Some \<lparr>timer_id = ''1'', timer_name = ''Work'', timer_duration = Fin 1500\<rparr>
   \<and> run AudioPlays (ToggleTimer # replicate 1500 Tick) initial_state
        = Inr (initial_state\<lparr>completedPomodoros := Fin 1\<rparr>)
   \<and> run AudioPlays (ToggleTimer # replicate 1499 Tick) initial_state
        = Inr (initial_state\<lparr>isActive := True, timeLeft := Fin 1\<rparr>)
   \<and> run AudioPlays (ToggleTimer # replicate 1499 Tick
                        @ [StartEditing \<lparr>timer_id = ''1'', timer_name = ''Work'',
                                         timer_duration = Fin 1500\<rparr>,
                           DurationChange (units ''10''), SaveEdit]
                        @ replicate 600 Tick) initial_state
        = Inr (initial_state\<lparr>timers := [\<lparr>timer_id = ''1'', timer_name = ''Work'',
                                            timer_duration = Fin 600\<rparr>],
                              timeLeft := Fin 600, completedPomodoros := Fin 1\<rparr>)"
proof -
  let ?t = "\<lparr>timer_id = ''1'', timer_name = ''Work'', timer_duration = Fin 1500\<rparr>"
  have h1: "\<not> isActive initial_state" and h2: "\<not> editView initial_state"
    and h3: "timeLeft initial_state = Fin (int 1500)" and h4: "(0::nat) < 1500"
    and h5: "int 1500 \<le> 2 ^ 53"
    and h6: "completedPomodoros initial_state = Fin 0" and h7: "(0::int) \<le> 0"
    and h8: "(0::int) < 2 ^ 53"
    and h9: "find (\<lambda>t. timer_id t = activeTimerId initial_state) (timers initial_state) = Some ?t"
    and h10: "timer_duration ?t \<noteq> Fin 0"
    by (simp_all add: initial_state_def editView_def)
  have t10: "units (digits 10) = units ''10''" by (simp add: digits.simps digit_char_def)
  note th = countdown_completes_once [OF h1 h2 h3 h4 h5 h6 h7 h8 h9 h10,
      where k = 1499 and a = AudioPlays and n = 10]
  from th have a: "run AudioPlays (ToggleTimer # replicate 1500 Tick) initial_state
        = Inr (initial_state\<lparr>isActive := False, completedPomodoros := Fin (0 + 1),
                 timeLeft := timer_duration ?t\<rparr>)"
    by blast
  from th have b: "run AudioPlays (ToggleTimer # replicate 1499 Tick) initial_state
        = Inr (initial_state\<lparr>isActive := True, timeLeft := Fin (int 1500 - int 1499)\<rparr>)"
    by simp
  from th have c: "run AudioPlays (ToggleTimer # replicate 1499 Tick
                        @ [StartEditing ?t, DurationChange (units (digits 10)), SaveEdit]
                        @ replicate (10 * 60) Tick) initial_state
        = Inr (initial_state\<lparr>timers := map (\<lambda>timer. if timer_id timer = timer_id ?t
                                          then timer\<lparr>timer_name := timer_name ?t,
                                                     timer_duration := Fin (int 10 * 60)\<rparr>
                                          else timer) (timers initial_state),
                         isActive := False, completedPomodoros := Fin (0 + 1),
                         timeLeft := Fin (int 10 * 60), isEditing := False, editingTimer := None\<rparr>)"
    by simp
  have a': "run AudioPlays (ToggleTimer # replicate 1500 Tick) initial_state
        = Inr (initial_state\<lparr>completedPomodoros := Fin 1\<rparr>)"
    unfolding a by (simp add: initial_state_def)
  have b': "run AudioPlays (ToggleTimer # replicate 1499 Tick) initial_state
        = Inr (initial_state\<lparr>isActive := True, timeLeft := Fin 1\<rparr>)"
    unfolding b by simp
  have n: "(10::nat) * 60 = 600" by simp
  have c': "run AudioPlays (ToggleTimer # replicate 1499 Tick
                        @ [StartEditing ?t, DurationChange (units ''10''), SaveEdit]
                        @ replicate 600 Tick) initial_state
        = Inr (initial_state\<lparr>timers := [\<lparr>timer_id = ''1'', timer_name = ''Work'',
                                            timer_duration = Fin 600\<rparr>],
                              timeLeft := Fin 600, completedPomodoros := Fin 1\<rparr>)"
    using c unfolding n t10 by (simp add: initial_state_def)
  from h1 h2 h3 h4 h5 h6 h7 h8 h9 a' b' c' show ?thesis by blast
qed

section \<open>Timer ids\<close>

lemma settle_timers: "settle a prev cur = Inr r \<Longrightarrow> timers r = timers cur"
proof (induction a prev cur rule: settle.induct)
  case (1 a prev cur)
  show ?case
  proof (cases "deps cur = deps prev")
    case True
    with "1.prems" show ?thesis by (simp add: settle_same)
  next
    case False
    have "\<exists>nxt. clockEffect a cur = Inr nxt \<and> timers nxt = timers cur"
      by (simp add: clockEffect_def handleTimerComplete_Inr resetTimer_def Let_def
               split: option.splits)
    then obtain nxt where n: "clockEffect a cur = Inr nxt" and t: "timers nxt = timers cur"
      by blast
    from "1.prems" False n have "settle a cur nxt = Inr r"
      by (subst (asm) settle.simps) simp
    with "1.IH" [OF False n] t show ?thesis by simp
  qed
qed

lemma handler_ids:
  "map timer_id (timers (handler e s)) =
     (case e of AddNewTimer now \<Rightarrow> map timer_id (timers s) @ [toString now]
              | _ \<Rightarrow> map timer_id (timers s))"
  by (cases e)
     (simp_all add: tick_def toggleTimer_def resetTimer_def addNewTimer_def selectTimer_def
        startEditing_def saveEdit_def handleDurationChange_def changeName_def Let_def comp_def
        split: option.splits)

lemma step_ids:
  assumes "step a e s = Inr s'"
  shows "map timer_id (timers s') =
     (if enabled e s
      then (case e of AddNewTimer now \<Rightarrow> map timer_id (timers s) @ [toString now]
                    | _ \<Rightarrow> map timer_id (timers s))
      else map timer_id (timers s))"
proof (cases "enabled e s")
  case True
  with assms have "settle a s (handler e s) = Inr s'" by (simp add: step_def)
  then have "timers s' = timers (handler e s)" by (rule settle_timers)
  with True show ?thesis by (simp add: handler_ids)
next
  case False
  with assms show ?thesis by (simp add: step_def)
qed

lemma fresh_reachable_distinct: "fresh_reachable s \<Longrightarrow> distinct (map timer_id (timers s))"
proof (induction rule: fresh_reachable.induct)
  case fresh_mount
  show ?case by (simp add: initial_state_def)
next
  case (fresh_event s e a s')
  from step_ids [OF fresh_event.hyps(4)] fresh_event.hyps(2,3) fresh_event.IH
  show ?case by (cases e) simp_all
qed

lemma toString_example: "toString 1700000000000 = ''1700000000000''"
  by (simp add: toString_small digits.simps digit_char_def)

lemma toString_example2: "toString 1700000000001 = ''1700000000001''"
  by (simp add: toString_small digits.simps digit_char_def)

lemma step_add: "\<not> editView s \<Longrightarrow> step a (AddNewTimer now) s = Inr (addNewTimer now s)"
  by (simp add: step_def settle_same deps_def addNewTimer_def)

text \<open>
  Claim C7 says that ids are unique in every reachable state and that \<^verbatim>\<open>addNewTimer\<close>
  gives an id different from all existing ones. The id is \<^verbatim>\<open>Date.now().toString()\<close>
  and nothing compares it with the ids in use: two timers added at the same clock reading
  have the same id.
\<close>

theorem ids_unique_counterexample:
  "reachable (addNewTimer 1700000000000 (addNewTimer 1700000000000 initial_state))
   \<and> map timer_id (timers (addNewTimer 1700000000000 (addNewTimer 1700000000000 initial_state)))
        = [''1'', ''1700000000000'', ''1700000000000'']
   \<and> \<not> distinct (map timer_id
        (timers (addNewTimer 1700000000000 (addNewTimer 1700000000000 initial_state))))"
proof -
  let ?s1 = "addNewTimer 1700000000000 initial_state"
  let ?s2 = "addNewTimer 1700000000000 ?s1"
  have e0: "\<not> editView initial_state" by (simp add: editView_def initial_state_def)
  have e1: "\<not> editView ?s1" by (simp add: editView_def initial_state_def addNewTimer_def)
  have "reachable ?s1"
    using reachable.event [OF reachable.mount, of "AddNewTimer 1700000000000" AudioPlays ?s1]
          e0 step_add [OF e0] by simp
  then have "reachable ?s2"
    using reachable.event [of ?s1 "AddNewTimer 1700000000000" AudioPlays ?s2]
          e1 step_add [OF e1] by simp
  moreover have "map timer_id (timers ?s2) = [''1'', ''1700000000000'', ''1700000000000'']"
    by (simp add: addNewTimer_def initial_state_def toString_example)
  ultimately show ?thesis by simp
qed

text \<open>
  Claim C7, amended. As long as every clock reading used by \<^verbatim>\<open>addNewTimer\<close> gives a text
  that is not yet the id of a timer, the ids of the collection are pairwise different in
  every reachable state. Ids are assigned at creation and never changed: a step other than
  adding a timer leaves the list of ids as it is (committing an edit included), and adding
  a timer puts the clock reading, as text, at its end.
\<close>

theorem ids_unique_while_clock_fresh:
  "(fresh_reachable s \<longrightarrow> distinct (map timer_id (timers s)))
   \<and> (step a e s = Inr s' \<and> (\<forall>now. e \<noteq> AddNewTimer now)
        \<longrightarrow> map timer_id (timers s') = map timer_id (timers s))
   \<and> (enabled (AddNewTimer now) s \<longrightarrow>
        (\<exists>r. step a (AddNewTimer now) s = Inr r
             \<and> map timer_id (timers r) = map timer_id (timers s) @ [toString now]))"
proof (intro conjI impI)
  assume "fresh_reachable s"
  then show "distinct (map timer_id (timers s))" by (rule fresh_reachable_distinct)
next
  assume "step a e s = Inr s' \<and> (\<forall>now. e \<noteq> AddNewTimer now)"
  then show "map timer_id (timers s') = map timer_id (timers s)"
    using step_ids [of a e s s'] by (cases e) (simp_all split: if_splits)
next
  assume en: "enabled (AddNewTimer now) s"
  have "step a (AddNewTimer now) s = Inr (addNewTimer now s)"
    using en by (simp add: step_def settle_same deps_def addNewTimer_def)
  then show "\<exists>r. step a (AddNewTimer now) s = Inr r
             \<and> map timer_id (timers r) = map timer_id (timers s) @ [toString now]"
    by (simp add: addNewTimer_def)
qed



theorem ids_unique_while_clock_fresh_witness:
  "fresh_reachable (addNewTimer 1700000000001 (addNewTimer 1700000000000 initial_state))
   \<and> distinct (map timer_id
        (timers (addNewTimer 1700000000001 (addNewTimer 1700000000000 initial_state))))
   \<and> enabled (AddNewTimer 1700000000000) initial_state
   \<and> (\<exists>r. step AudioPlays (AddNewTimer 1700000000000) initial_state = Inr r
         \<and> map timer_id (timers r) = [''1'', ''1700000000000''])
   \<and> step AudioPlays ToggleTimer initial_state = Inr (initial_state\<lparr>isActive := True\<rparr>)
   \<and> map timer_id (timers (initial_state\<lparr>isActive := True\<rparr>)) = map timer_id (timers initial_state)"
proof -
  let ?s1 = "addNewTimer 1700000000000 initial_state"
  let ?s2 = "addNewTimer 1700000000001 ?s1"
  have e0: "\<not> editView initial_state" by (simp add: editView_def initial_state_def)
  have e1: "\<not> editView ?s1" by (simp add: editView_def initial_state_def addNewTimer_def)
  have f0: "fresh_clock (AddNewTimer 1700000000000) initial_state"
    by (simp add: initial_state_def toString_example)
  have f1: "fresh_clock (AddNewTimer 1700000000001) ?s1"
    by (simp add: initial_state_def addNewTimer_def toString_example toString_example2)
  have "fresh_reachable ?s1"
    using fresh_reachable.fresh_event [OF fresh_reachable.fresh_mount, of "AddNewTimer 1700000000000" AudioPlays ?s1]
          e0 f0 step_add [OF e0] by simp
  then have fr: "fresh_reachable ?s2"
    using fresh_reachable.fresh_event [of ?s1 "AddNewTimer 1700000000001" AudioPlays ?s2]
          e1 f1 step_add [OF e1] by simp
  have en: "enabled (AddNewTimer 1700000000000) initial_state" using e0 by simp
  have tg: "step AudioPlays ToggleTimer initial_state = Inr (initial_state\<lparr>isActive := True\<rparr>)"
    using e0 by (simp add: step_quiet toggleTimer_def initial_state_def)
  from ids_unique_while_clock_fresh [where s = ?s2] fr
  have "distinct (map timer_id (timers ?s2))" by blast
  moreover from ids_unique_while_clock_fresh
      [where s = initial_state and a = AudioPlays and now = 1700000000000] en
  have "\<exists>r. step AudioPlays (AddNewTimer 1700000000000) initial_state = Inr r
         \<and> map timer_id (timers r) = map timer_id (timers initial_state) @ [toString 1700000000000]"
    by blast
  moreover from ids_unique_while_clock_fresh
      [where s = initial_state and a = AudioPlays and e = ToggleTimer
         and s' = "initial_state\<lparr>isActive := True\<rparr>"] tg
  have "map timer_id (timers (initial_state\<lparr>isActive := True\<rparr>)) = map timer_id (timers initial_state)"
    by simp
  ultimately show ?thesis
    using fr en tg by (simp add: toString_example initial_state_def)
qed

section \<open>The countdown is never negative\<close>

lemma wellFormed_timeLeft: "wellFormed s \<Longrightarrow> num_gt0 (timeLeft s)"
  by (simp add: wellFormed_def)

lemma num_gt0_nonzero: "num_gt0 x \<Longrightarrow> x \<noteq> Fin 0"
  by (cases x) simp_all

lemma wellFormed_member: "wellFormed s \<Longrightarrow> t \<in> set (timers s) \<Longrightarrow> num_gt0 (timer_duration t)"
  by (simp add: wellFormed_def list_all_iff)

lemma wellFormed_active:
  "wellFormed s \<Longrightarrow>
   \<exists>t. find (\<lambda>t. timer_id t = activeTimerId s) (timers s) = Some t \<and> num_gt0 (timer_duration t)"
  using find_present [of "activeTimerId s" "timers s"] wellFormed_member [of s]
  by (auto simp: wellFormed_def)

lemma wellFormed_handler:
  assumes "wellFormed s" and "enabled e s" and "e \<noteq> Tick"
  shows "wellFormed (handler e s)"
proof (cases e)
  case Tick
  with assms(3) show ?thesis by simp
next
  case ToggleTimer
  with assms(1) show ?thesis by (simp add: wellFormed_def toggleTimer_def)
next
  case ResetTimer
  obtain t where "find (\<lambda>t. timer_id t = activeTimerId s) (timers s) = Some t"
      "num_gt0 (timer_duration t)"
    using wellFormed_active [OF assms(1)] by blast
  with assms(1) ResetTimer show ?thesis by (simp add: wellFormed_def resetTimer_def)
next
  case (AddNewTimer now)
  with assms(1) show ?thesis by (simp add: wellFormed_def addNewTimer_def)
next
  case (SelectTimer t)
  with assms(2) have "t \<in> set (timers s)" by simp
  with assms(1) wellFormed_member [of s t] SelectTimer show ?thesis
    by (simp add: wellFormed_def selectTimer_def)
next
  case (StartEditing t)
  with assms(2) have "t \<in> set (timers s)" by simp
  with assms(1) wellFormed_member [of s t] StartEditing show ?thesis
    by (simp add: wellFormed_def startEditing_def)
next
  case SaveEdit
  have ids: "map timer_id (timers (saveEdit s)) = map timer_id (timers s)"
    using handler_ids [of SaveEdit s] by simp
  have act: "activeTimerId (saveEdit s) = activeTimerId s"
    by (simp add: saveEdit_def Let_def split: option.splits)
  have "activeTimerId (saveEdit s) \<in> set (map timer_id (timers (saveEdit s)))"
    unfolding ids act using assms(1) by (simp add: wellFormed_def)
  moreover have "num_gt0 (timeLeft (saveEdit s))"
    using assms(1) by (simp add: wellFormed_def saveEdit_def Let_def split: option.splits)
  moreover have "list_all (\<lambda>t. num_gt0 (timer_duration t)) (timers (saveEdit s))"
    using assms(1)
    by (auto simp: wellFormed_def saveEdit_def Let_def list_all_iff split: option.splits)
  moreover have "editingTimer (saveEdit s) = None"
    by (simp add: saveEdit_def)
  ultimately show ?thesis
    using SaveEdit by (simp add: wellFormed_def)
next
  case (DurationChange minutes)
  with assms(1) show ?thesis
    by (auto simp: wellFormed_def handleDurationChange_def Let_def split: option.splits)
next
  case (NameChange label)
  with assms(1) show ?thesis
    by (simp add: wellFormed_def changeName_def split: option.splits)
qed

lemma tick_nonneg: "num_gt0 (timeLeft s) \<Longrightarrow> num_ge0 (timeLeft (tick s))"
proof (cases "timeLeft s")
  case (Fin i)
  assume "num_gt0 (timeLeft s)"
  with Fin have i: "0 < i" by simp
  show ?thesis
  proof (cases "i = 1")
    case True
    with Fin show ?thesis by (simp add: tick_def num_add_def fl_zero)
  next
    case False
    with i have "0 < i - 1" by simp
    then have "num_gt0 (fl (i - 1))" by (rule fl_pos)
    then show ?thesis using Fin by (simp add: tick_def num_add_def num_gt0_ge0)
  qed
qed (simp_all add: tick_def num_add_def)

lemma wellFormed_step:
  assumes "wellFormed s" and "enabled e s" and "step a e s = Inr s'"
  shows "wellFormed s'"
proof (cases "e = Tick")
  case False
  with assms(1,2) have w: "wellFormed (handler e s)" by (rule wellFormed_handler)
  then have "step a e s = Inr (handler e s)"
    using assms(2) num_gt0_nonzero [OF wellFormed_timeLeft [OF w]] by (intro step_quiet) simp_all
  with assms(3) w show ?thesis by simp
next
  case True
  with assms(2) have run: "isActive s" and pos: "num_gt0 (timeLeft s)"
    by (simp_all add: intervalArmed_def)
  show ?thesis
  proof (cases "timeLeft s = Fin 1")
    case one: True
    obtain t where t: "find (\<lambda>t. timer_id t = activeTimerId s) (timers s) = Some t"
        "num_gt0 (timer_duration t)"
      using wellFormed_active [OF assms(1)] by blast
    then have "step a Tick s =
        Inr (s\<lparr>isActive := False, completedPomodoros := num_add (completedPomodoros s) 1,
               timeLeft := timer_duration t\<rparr>)"
      using run one num_gt0_nonzero [OF t(2)] by (intro step_tick_complete) simp_all
    with assms(1,3) True t(2) show ?thesis by (auto simp: wellFormed_def)
  next
    case False
    have g: "num_gt0 (timeLeft (tick s))"
    proof (cases "timeLeft s")
      case (Fin i)
      with pos False have "0 < i - 1" by simp
      then have "num_gt0 (fl (i - 1))" by (rule fl_pos)
      then show ?thesis using Fin by (simp add: tick_def num_add_def)
    next
      case PosInf
      then show ?thesis by (simp add: tick_def num_add_def)
    next
      case NegInf
      with pos show ?thesis by simp
    next
      case NaN
      with pos show ?thesis by simp
    qed
    then have "step a Tick s = Inr (tick s)"
      using assms(2) True num_gt0_nonzero [OF g] by (intro step_quiet [of Tick s a, simplified]) simp_all
    with assms(1,3) True g show ?thesis by (auto simp: wellFormed_def tick_def)
  qed
qed

lemma reachable_wellFormed: "reachable s \<Longrightarrow> wellFormed s"
proof (induction rule: reachable.induct)
  case mount
  show ?case by (simp add: wellFormed_def initial_state_def)
next
  case (event s e a s')
  then show ?case using wellFormed_step by blast
qed

text \<open>
  Claim C2 says that every tick while running takes exactly 1 from \<^verbatim>\<open>timeLeft\<close>. In
  the reachable running state with 9007199254741020 seconds left the interval is armed and
  its callback leaves \<^verbatim>\<open>timeLeft\<close> as it is.
\<close>

theorem countdown_decrements_counterexample:
  "reachable (initial_state\<lparr>timers := [\<lparr>timer_id = ''1'', timer_name = ''Work'',
                                          timer_duration = Fin 9007199254741020\<rparr>],
                             timeLeft := Fin 9007199254741020, isActive := True\<rparr>)
   \<and> intervalArmed (initial_state\<lparr>timers := [\<lparr>timer_id = ''1'', timer_name = ''Work'',
                                          timer_duration = Fin 9007199254741020\<rparr>],
                             timeLeft := Fin 9007199254741020, isActive := True\<rparr>)
   \<and> timeLeft (handler Tick (initial_state\<lparr>timers := [\<lparr>timer_id = ''1'', timer_name = ''Work'',
                                          timer_duration = Fin 9007199254741020\<rparr>],
                             timeLeft := Fin 9007199254741020, isActive := True\<rparr>))
       = Fin 9007199254741020
   \<and> Fin 9007199254741020 \<noteq> Fin (9007199254741020 - 1)"
proof -
  let ?big = "initial_state\<lparr>timers := [\<lparr>timer_id = ''1'', timer_name = ''Work'',
                                          timer_duration = Fin 9007199254741020\<rparr>],
                             timeLeft := Fin 9007199254741020\<rparr>"
  let ?run = "initial_state\<lparr>timers := [\<lparr>timer_id = ''1'', timer_name = ''Work'',
                                          timer_duration = Fin 9007199254741020\<rparr>],
                             timeLeft := Fin 9007199254741020, isActive := True\<rparr>"
  have e: "enabled ToggleTimer ?big" by (simp add: editView_def initial_state_def)
  have "step AudioPlays ToggleTimer ?big = Inr (handler ToggleTimer ?big)"
    using e by (rule step_quiet) (simp add: toggleTimer_def)
  moreover have "handler ToggleTimer ?big = ?run"
    by (simp add: toggleTimer_def initial_state_def)
  ultimately have "step AudioPlays ToggleTimer ?big = Inr ?run" by simp
  with e have r: "reachable ?run"
    using reachable.event [OF reachable_above_2_53, of ToggleTimer AudioPlays ?run] by blast
  have a: "intervalArmed ?run" by (simp add: intervalArmed_def)
  have "tick ?run = ?run" by (rule tick_above_2_53) simp
  then have t: "timeLeft (handler Tick ?run) = Fin 9007199254741020" by simp
  show ?thesis using r a t by simp
qed

text \<open>
  Claim C2, amended. In every reachable state \<^verbatim>\<open>timeLeft\<close> is not negative (and is a
  number). The interval only exists while \<^verbatim>\<open>isActive && timeLeft > 0\<close>; while
  \<^verbatim>\<open>timeLeft\<close> is at most \<open>2 ^ 53\<close> its callback takes exactly 1 from \<^verbatim>\<open>timeLeft\<close>,
  and at any value its result is not negative, as is the result of every other handler
  before the effect runs. While running, \<open>n\<close> ticks with \<open>n\<close> below a \<^verbatim>\<open>timeLeft\<close> of at
  most \<open>2 ^ 53\<close> take exactly \<open>n\<close> from it and change nothing else, and without the
  interval a tick does nothing.
\<close>

theorem countdown_decrements_never_negative:
  "reachable s \<Longrightarrow>
     num_ge0 (timeLeft s)
     \<and> (intervalArmed s \<and> timeLeft s = Fin i \<and> i \<le> 2 ^ 53 \<longrightarrow>
          timeLeft (handler Tick s) = Fin (i - 1) \<and> 0 \<le> i - 1)
     \<and> (enabled e s \<longrightarrow> num_ge0 (timeLeft (handler e s)))
     \<and> (isActive s \<and> timeLeft s = Fin i \<and> int n < i \<and> i \<le> 2 ^ 53 \<longrightarrow>
          run a (replicate n Tick) s = Inr (s\<lparr>timeLeft := Fin (i - int n)\<rparr>))
     \<and> (\<not> (isActive s \<and> num_gt0 (timeLeft s)) \<longrightarrow> step a Tick s = Inr s)"
proof -
  assume "reachable s"
  then have w: "wellFormed s" by (rule reachable_wellFormed)
  have pos: "num_gt0 (timeLeft s)" using w by (rule wellFormed_timeLeft)
  have tick: "intervalArmed s \<and> timeLeft s = Fin i \<and> i \<le> 2 ^ 53 \<longrightarrow>
          timeLeft (handler Tick s) = Fin (i - 1) \<and> 0 \<le> i - 1"
  proof (intro impI, elim conjE)
    assume t: "timeLeft s = Fin i" and b: "i \<le> 2 ^ 53"
    with pos have i: "0 < i" by simp
    then have "num_add (Fin i) (- 1) = Fin (i + - 1)"
      using b by (intro num_add_exact) simp
    then show "timeLeft (handler Tick s) = Fin (i - 1) \<and> 0 \<le> i - 1"
      using t i by (simp add: tick_def)
  qed
  have any: "enabled e s \<longrightarrow> num_ge0 (timeLeft (handler e s))"
  proof (cases "e = Tick")
    case True
    with pos show ?thesis by (simp add: tick_nonneg)
  next
    case False
    then show ?thesis
      using wellFormed_handler [OF w, of e] wellFormed_timeLeft [of "handler e s"]
      by (auto intro: num_gt0_ge0)
  qed
  have seq: "isActive s \<and> timeLeft s = Fin i \<and> int n < i \<and> i \<le> 2 ^ 53 \<longrightarrow>
          run a (replicate n Tick) s = Inr (s\<lparr>timeLeft := Fin (i - int n)\<rparr>)"
    using run_ticks_down [of s i n a] by blast
  have off: "\<not> (isActive s \<and> num_gt0 (timeLeft s)) \<longrightarrow> step a Tick s = Inr s"
    by (simp add: step_def intervalArmed_def)
  from num_gt0_ge0 [OF pos] tick any seq off show ?thesis by blast
qed

theorem countdown_decrements_never_negative_witness:
  "reachable (initial_state\<lparr>isActive := True\<rparr>)
   \<and> num_ge0 (timeLeft (initial_state\<lparr>isActive := True\<rparr>))
   \<and> intervalArmed (initial_state\<lparr>isActive := True\<rparr>)
   \<and> timeLeft (initial_state\<lparr>isActive := True\<rparr>) = Fin 1500 \<and> (1500::int) \<le> 2 ^ 53
   \<and> timeLeft (handler Tick (initial_state\<lparr>isActive := True\<rparr>)) = Fin 1499
   \<and> isActive (initial_state\<lparr>isActive := True\<rparr>)
   \<and> int 3 < 1500
   \<and> run AudioPlays (replicate 3 Tick) (initial_state\<lparr>isActive := True\<rparr>)
        = Inr (initial_state\<lparr>isActive := True, timeLeft := Fin 1497\<rparr>)"
proof -
  let ?s = "initial_state\<lparr>isActive := True\<rparr>"
  have e0: "enabled ToggleTimer initial_state" by (simp add: editView_def initial_state_def)
  have "step AudioPlays ToggleTimer initial_state = Inr ?s"
    using e0 by (simp add: step_quiet toggleTimer_def initial_state_def)
  with e0 have r: "reachable ?s"
    using reachable.event [OF reachable.mount, of ToggleTimer AudioPlays ?s] by simp
  have arm: "intervalArmed ?s" by (simp add: intervalArmed_def initial_state_def)
  have tl: "timeLeft ?s = Fin 1500" by (simp add: initial_state_def)
  have act: "isActive ?s" by simp
  from countdown_decrements_never_negative [OF r, where i = 1500 and n = 3 and a = AudioPlays]
    arm tl act
  have "num_ge0 (timeLeft ?s) \<and> timeLeft (handler Tick ?s) = Fin (1500 - 1)
        \<and> run AudioPlays (replicate 3 Tick) ?s = Inr (?s\<lparr>timeLeft := Fin (1500 - int 3)\<rparr>)"
    by simp
  then show ?thesis using r arm tl by simp
qed

end
